theory Spec2Isabelle
  imports Complex_Main "HOL-Library.AList" "HOL-Library.Sublist"
begin

section \<open>JavaScript values used by the engines\<close>

text \<open>
  A JavaScript \<^verbatim>\<open>number\<close> that results from a division is either a finite value
  or one of the three special values. Finite values are idealised as reals (binary
  rounding of doubles is not modelled); what is modelled is where a special value can
  arise: \<^verbatim>\<open>0 / 0\<close> is NaN and \<^verbatim>\<open>a / 0\<close> is an infinity.
\<close>

datatype number = Num real | NaN | PlusInfinity | MinusInfinity

fun js_div :: "number \<Rightarrow> number \<Rightarrow> number" where
  "js_div (Num a) (Num b) =
     (if b = 0 then (if a = 0 then NaN else if 0 < a then PlusInfinity else MinusInfinity)
      else Num (a / b))"
| "js_div NaN _ = NaN"
| "js_div _ NaN = NaN"
| "js_div (Num a) _ = Num 0"
| "js_div PlusInfinity (Num b) = (if 0 \<le> b then PlusInfinity else MinusInfinity)"
| "js_div MinusInfinity (Num b) = (if 0 \<le> b then MinusInfinity else PlusInfinity)"
| "js_div _ _ = NaN"

fun js_mul :: "number \<Rightarrow> number \<Rightarrow> number" where
  "js_mul (Num a) (Num b) = Num (a * b)"
| "js_mul NaN _ = NaN"
| "js_mul _ NaN = NaN"
| "js_mul (Num a) PlusInfinity =
     (if a = 0 then NaN else if 0 < a then PlusInfinity else MinusInfinity)"
| "js_mul (Num a) MinusInfinity =
     (if a = 0 then NaN else if 0 < a then MinusInfinity else PlusInfinity)"
| "js_mul PlusInfinity (Num b) =
     (if b = 0 then NaN else if 0 < b then PlusInfinity else MinusInfinity)"
| "js_mul MinusInfinity (Num b) =
     (if b = 0 then NaN else if 0 < b then MinusInfinity else PlusInfinity)"
| "js_mul PlusInfinity PlusInfinity = PlusInfinity"
| "js_mul MinusInfinity MinusInfinity = PlusInfinity"
| "js_mul _ _ = MinusInfinity"

text \<open>\<^verbatim>\<open>Math.round\<close>: the nearest integer, halves rounded towards plus infinity.\<close>

fun Math_round :: "number \<Rightarrow> number" where
  "Math_round (Num a) = Num (of_int \<lfloor>a + 1 / 2\<rfloor>)"
| "Math_round v = v"

text \<open>
  Truthiness of an optional string (\<^verbatim>\<open>undefined\<close> and the empty string are falsy)
  and of an optional number (\<^verbatim>\<open>undefined\<close> and \<^verbatim>\<open>0\<close> are falsy).
\<close>

definition truthy_str :: "string option \<Rightarrow> bool" where
  "truthy_str v = (case v of None \<Rightarrow> False | Some s \<Rightarrow> s \<noteq> [])"

definition truthy_num :: "'a::zero option \<Rightarrow> bool" where
  "truthy_num v = (case v of None \<Rightarrow> False | Some n \<Rightarrow> n \<noteq> 0)"

text \<open>\<^verbatim>\<open>String.prototype.toLowerCase\<close>, on the ASCII letters.\<close>

definition toLowerCaseChar :: "char \<Rightarrow> char" where
  "toLowerCaseChar c =
     (let n = (of_char c :: nat) in if 65 \<le> n \<and> n \<le> 90 then char_of (n + 32) else c)"

definition toLowerCase :: "string \<Rightarrow> string" where
  "toLowerCase s = map toLowerCaseChar s"

text \<open>\<^verbatim>\<open>String.prototype.includes\<close>: the argument occurs as a contiguous part.\<close>

definition includes_str :: "string \<Rightarrow> string \<Rightarrow> bool" where
  "includes_str s search = sublist search s"

section \<open>Data model of the analytics and filter engines\<close>

text \<open>
  The \<^verbatim>\<open>Node\<close> and \<^verbatim>\<open>Edge\<close> of \<^verbatim>\<open>utils/analytics.ts\<close> and of the filter
  module, with the fields those modules read. Optional fields are options; years are
  integers. A \<^verbatim>\<open>Record<string, Node>\<close> is the list of its entries in the order
  \<^verbatim>\<open>Object.keys\<close> enumerates them; its keys are distinct.
\<close>

record Node =
  id :: string
  label :: string
  type :: string
  description :: "string option"
  imageUrl :: "string option"
  series :: "string option"
  publicationYear :: "int option"

record Edge =
  id :: string
  source :: string
  target :: string

text \<open>
  An object with one field per node type that the analytics and the filters know
  (\<^verbatim>\<open>{ book, author, theme }\<close>): flags in a filter config, counts in the statistics.
\<close>

record 'a ByType =
  book :: 'a
  author :: 'a
  theme :: 'a

text \<open>
  A JavaScript \<^verbatim>\<open>Map\<close> is its list of entries in insertion order: \<^verbatim>\<open>get\<close> is
  \<^const>\<open>map_of\<close>, and \<^verbatim>\<open>set\<close> is \<^const>\<open>AList.update\<close>, which replaces the value of
  a present key in place and appends a new key. A \<^verbatim>\<open>Set\<close> is its list of elements in
  insertion order.
\<close>

definition Set_add :: "'a \<Rightarrow> 'a list \<Rightarrow> 'a list" where
  "Set_add v s = (if v \<in> set s then s else s @ [v])"

text \<open>\<^verbatim>\<open>m.set(k, (m.get(k) || 0) + 1)\<close>, the counting step of the statistics.\<close>

definition increment :: "(string \<times> nat) list \<Rightarrow> string \<Rightarrow> (string \<times> nat) list" where
  "increment m k = AList.update k ((case map_of m k of None \<Rightarrow> 0 | Some c \<Rightarrow> c) + 1) m"

text \<open>
  Decimal rendering of integers in a template string, and \<^verbatim>\<open>parseInt\<close> on an optional
  minus sign followed by digits (the digits that start the string are read, the rest is
  ignored; without a digit the result is NaN, here \<open>None\<close>).
\<close>

definition digit_char :: "nat \<Rightarrow> char" where
  "digit_char d = char_of (48 + d)"

fun show_nat :: "nat \<Rightarrow> string" where
  "show_nat n = (if n < 10 then [digit_char n] else show_nat (n div 10) @ [digit_char (n mod 10)])"

declare show_nat.simps [simp del]

definition show_int :: "int \<Rightarrow> string" where
  "show_int i = (if i < 0 then CHR ''-'' # show_nat (nat (- i)) else show_nat (nat i))"

definition is_digit :: "char \<Rightarrow> bool" where
  "is_digit c = (48 \<le> (of_char c :: nat) \<and> (of_char c :: nat) \<le> 57)"

definition digit_value :: "char \<Rightarrow> nat" where
  "digit_value c = of_char c - 48"

definition read_digits :: "string \<Rightarrow> nat" where
  "read_digits s = foldl (\<lambda>acc c. acc * 10 + digit_value c) 0 s"

definition parse_nat_prefix :: "string \<Rightarrow> nat option" where
  "parse_nat_prefix s =
     (case takeWhile is_digit s of [] \<Rightarrow> None | ds \<Rightarrow> Some (read_digits ds))"

definition parseInt :: "string \<Rightarrow> int option" where
  "parseInt s =
     (case s of
        c # rest \<Rightarrow>
          if c = CHR ''-'' then map_option (\<lambda>n. - int n) (parse_nat_prefix rest)
          else map_option int (parse_nat_prefix s)
      | [] \<Rightarrow> None)"

type_synonym NodeRecord = "(string \<times> Node) list"

definition Object_keys :: "NodeRecord \<Rightarrow> string list" where
  "Object_keys nodes = map fst nodes"

definition Object_values :: "NodeRecord \<Rightarrow> Node list" where
  "Object_values nodes = map snd nodes"

section \<open>Filter engine\<close>

datatype FilterType = T_nodeType | T_publicationYear | T_series | T_description | T_custom

datatype YearMode = Range | Before | After | Exact

datatype SeriesMode = Include | Exclude

datatype MatchMode = Any | All

text \<open>
  \<^verbatim>\<open>FilterConfig\<close> is a union of five object types that is not discriminated by the
  criterion's \<^verbatim>\<open>type\<close>: \<^verbatim>\<open>applyCriterion\<close> casts the config according to the type,
  so a criterion whose config is of another kind is a value of the input type as well.
\<close>

datatype FilterConfig =
    NodeTypeFilterConfig "bool ByType"
  | PublicationYearFilterConfig YearMode "int option" "int option" "int option"
  | SeriesFilterConfig SeriesMode "string list"
  | DescriptionFilterConfig "string list" MatchMode bool
  | CustomFilterConfig string

record FilterCriteria =
  id :: string
  name :: string
  enabled :: bool
  type :: FilterType
  config :: FilterConfig

text \<open>
  The exceptions that the modelled code can raise: a TypeError for a property read on
  \<^verbatim>\<open>undefined\<close>, and a RangeError when the engine's call stack or its bound on the
  number of arguments of a call is exceeded.
\<close>

datatype error = TypeError | RangeError

text \<open>
  \<^verbatim>\<open>config.types[node.type] ?? true\<close>: the flag of the node's type, \<^verbatim>\<open>true\<close> for a
  type that has no flag.
\<close>

definition types_lookup :: "bool ByType \<Rightarrow> string \<Rightarrow> bool" where
  "types_lookup flags t =
     (if t = ''book'' then book flags
      else if t = ''author'' then author flags
      else if t = ''theme'' then theme flags
      else True)"

text \<open>
  The four modes of the year filter, with \<^verbatim>\<open>minYear ?? 0\<close> and
  \<^verbatim>\<open>maxYear ?? 9999\<close>; \<^verbatim>\<open>year === undefined\<close> is false.
\<close>

definition year_matches :: "YearMode \<Rightarrow> int option \<Rightarrow> int option \<Rightarrow> int option \<Rightarrow> int \<Rightarrow> bool" where
  "year_matches mode minYear maxYear exactYear year =
     (case mode of
        Range \<Rightarrow> (case minYear of None \<Rightarrow> 0 | Some m \<Rightarrow> m) \<le> year
                  \<and> year \<le> (case maxYear of None \<Rightarrow> 9999 | Some m \<Rightarrow> m)
      | Before \<Rightarrow> year < (case maxYear of None \<Rightarrow> 9999 | Some m \<Rightarrow> m)
      | After \<Rightarrow> (case minYear of None \<Rightarrow> 0 | Some m \<Rightarrow> m) < year
      | Exact \<Rightarrow> exactYear = Some year)"

text \<open>
  One keyword of the description filter against the lower-cased description: the
  keyword is lower-cased only when the filter is not case sensitive.
\<close>

definition keyword_matches :: "bool \<Rightarrow> string \<Rightarrow> string \<Rightarrow> bool" where
  "keyword_matches caseSensitive lowered keyword =
     includes_str lowered (if caseSensitive then keyword else toLowerCase keyword)"

text \<open>
  \<^verbatim>\<open>applyCriterion\<close>. A disabled criterion returns before its config is read. Reading
  \<^verbatim>\<open>config.types[...]\<close>, \<^verbatim>\<open>config.seriesNames.includes\<close> or
  \<^verbatim>\<open>config.keywords.map\<close> on a config that lacks the property raises a TypeError;
  \<^verbatim>\<open>config.mode\<close> on a config without a (year) mode reaches the \<^verbatim>\<open>default\<close> branch.
\<close>

definition applyCriterion :: "Node \<Rightarrow> FilterCriteria \<Rightarrow> error + bool" where
  "applyCriterion node criterion =
     (if \<not> enabled criterion then Inr True
      else case FilterCriteria.type criterion of
        T_nodeType \<Rightarrow>
          (case config criterion of
             NodeTypeFilterConfig flags \<Rightarrow> Inr (types_lookup flags (Node.type node))
           | _ \<Rightarrow> Inl TypeError)
      | T_publicationYear \<Rightarrow>
          (case publicationYear node of
             None \<Rightarrow> Inr False
           | Some year \<Rightarrow>
               if year = 0 then Inr False
               else (case config criterion of
                       PublicationYearFilterConfig mode minYear maxYear exactYear \<Rightarrow>
                         Inr (year_matches mode minYear maxYear exactYear year)
                     | _ \<Rightarrow> Inr True))
      | T_series \<Rightarrow>
          (if truthy_str (series node) then
             (case config criterion of
                SeriesFilterConfig mode seriesNames \<Rightarrow>
                  (let hasSeries = (series node \<in> Some ` set seriesNames)
                   in Inr (if mode = Include then hasSeries else \<not> hasSeries))
              | _ \<Rightarrow> Inl TypeError)
           else
             (case config criterion of
                SeriesFilterConfig Include seriesNames \<Rightarrow> Inr False
              | _ \<Rightarrow> Inr True))
      | T_description \<Rightarrow>
          (case config criterion of
             DescriptionFilterConfig keywords matchMode caseSensitive \<Rightarrow>
               (let lowered = toLowerCase (case description node of None \<Rightarrow> [] | Some s \<Rightarrow> s);
                    matches = map (keyword_matches caseSensitive lowered) keywords
                in Inr (if matchMode = All then list_all (\<lambda>m. m) matches
                        else list_ex (\<lambda>m. m) matches))
           | _ \<Rightarrow> Inl TypeError)
      | T_custom \<Rightarrow> Inr True)"

text \<open>
  \<^verbatim>\<open>applyFilters\<close>: \<^verbatim>\<open>criteria.every\<close> evaluates the criteria in order and stops at
  the first one that is not passed; an exception of a criterion ends the call.
\<close>

fun applyFilters :: "Node \<Rightarrow> FilterCriteria list \<Rightarrow> error + bool" where
  "applyFilters node [] = Inr True"
| "applyFilters node (criterion # rest) =
     (case applyCriterion node criterion of
        Inl e \<Rightarrow> Inl e
      | Inr passed \<Rightarrow> if passed then applyFilters node rest else Inr False)"

text \<open>
  The object \<^verbatim>\<open>filtered\<close> that \<^verbatim>\<open>filterNodes\<close> builds from \<^verbatim>\<open>{}\<close> and
  returns: its own entries, which \<^verbatim>\<open>Object.keys\<close> and \<^verbatim>\<open>Object.entries\<close>
  enumerate, and its prototype when that is no longer \<^verbatim>\<open>Object.prototype\<close>.
\<close>

record Filtered =
  proto :: "Node option"
  own :: NodeRecord

text \<open>
  The assignment \<^verbatim>\<open>filtered[id] = node\<close>. For the key \<^verbatim>\<open>__proto__\<close> it runs the
  setter inherited from \<^verbatim>\<open>Object.prototype\<close>: the node becomes the prototype of
  \<^verbatim>\<open>filtered\<close> and no entry is added. For every other key it keeps the position of
  a key that is already present and appends a new one (the nodes are plain objects
  with writable fields, so a field inherited from a node never blocks the assignment).
\<close>

definition assign :: "Filtered \<Rightarrow> string \<Rightarrow> Node \<Rightarrow> Filtered" where
  "assign filtered k node =
     (if k = ''__proto__'' then filtered\<lparr>proto := Some node\<rparr>
      else filtered\<lparr>own := AList.update k node (own filtered)\<rparr>)"

text \<open>
  \<^verbatim>\<open>filterNodes\<close>: the loop over \<^verbatim>\<open>Object.entries(nodes)\<close>, with the object
  \<^verbatim>\<open>filtered\<close> as accumulator.
\<close>

fun filterNodes_loop :: "NodeRecord \<Rightarrow> FilterCriteria list \<Rightarrow> Filtered \<Rightarrow> error + Filtered" where
  "filterNodes_loop [] criteria filtered = Inr filtered"
| "filterNodes_loop ((k, node) # rest) criteria filtered =
     (case applyFilters node criteria of
        Inl e \<Rightarrow> Inl e
      | Inr passed \<Rightarrow>
          filterNodes_loop rest criteria (if passed then assign filtered k node else filtered))"

definition filterNodes :: "NodeRecord \<Rightarrow> FilterCriteria list \<Rightarrow> error + Filtered" where
  "filterNodes nodes criteria = filterNodes_loop nodes criteria \<lparr>proto = None, own = []\<rparr>"

text \<open>
  The criteria for which the cast in \<^verbatim>\<open>applyCriterion\<close> is right: the config is of
  the kind that the criterion's type names.
\<close>

definition config_matches :: "FilterCriteria \<Rightarrow> bool" where
  "config_matches criterion =
     (case (FilterCriteria.type criterion, config criterion) of
        (T_nodeType, NodeTypeFilterConfig _) \<Rightarrow> True
      | (T_publicationYear, PublicationYearFilterConfig _ _ _ _) \<Rightarrow> True
      | (T_series, SeriesFilterConfig _ _) \<Rightarrow> True
      | (T_description, DescriptionFilterConfig _ _ _) \<Rightarrow> True
      | (T_custom, CustomFilterConfig _) \<Rightarrow> True
      | _ \<Rightarrow> False)"

section \<open>Layout engine: geometry and drag\<close>

text \<open>
  The \<^verbatim>\<open>GraphNode\<close> of \<^verbatim>\<open>src/types/index.ts\<close> with the fields the geometric
  queries and the drag handlers touch. The optional coordinates and the pin
  (\<^verbatim>\<open>fx\<close>, \<^verbatim>\<open>fy\<close>: a number, \<^verbatim>\<open>null\<close> or \<^verbatim>\<open>undefined\<close>) are options.
\<close>

datatype NodeType = Author | Book | Genre | Theme | Character | Movement

record GraphNode =
  id :: string
  type :: NodeType
  label :: string
  x :: "real option"
  y :: "real option"
  fx :: "real option"
  fy :: "real option"
  expanded :: bool
  depth :: real

record GraphEngineConfig =
  width :: real
  height :: real
  nodeRadius :: real
  linkDistance :: real
  chargeStrength :: real
  enableCollision :: bool

text \<open>
  Of the d3 simulation, the state that the drag handlers set: the target of the cooling
  schedule and whether the timer runs.
\<close>

record Simulation =
  alphaTarget :: real
  running :: bool

record GraphEngine =
  simulation :: "Simulation option"
  config :: GraphEngineConfig

text \<open>A drag event of d3: the number of active gestures and the pointer position.\<close>

record DragEvent =
  active :: nat
  x :: real
  y :: real

text \<open>\<^verbatim>\<open>multipliers[type] || 1.0\<close>: every entry of the table is non-zero.\<close>

fun getNodeTypeMultiplier :: "NodeType \<Rightarrow> real" where
  "getNodeTypeMultiplier Author = 1.3"
| "getNodeTypeMultiplier Book = 1.0"
| "getNodeTypeMultiplier Genre = 1.1"
| "getNodeTypeMultiplier Theme = 0.9"
| "getNodeTypeMultiplier Character = 0.8"
| "getNodeTypeMultiplier Movement = 1.2"

definition getNodeRadius :: "GraphEngine \<Rightarrow> GraphNode \<Rightarrow> real" where
  "getNodeRadius engine node =
     (let baseRadius = nodeRadius (GraphEngine.config engine);
          typeMultiplier = getNodeTypeMultiplier (GraphNode.type node);
          depthMultiplier = 1 + (3 - depth node) * 0.2
      in baseRadius * typeMultiplier * depthMultiplier)"

text \<open>
  \<^verbatim>\<open>findNodeAt\<close>: the loop over the nodes. The guard \<^verbatim>\<open>!node.x || !node.y\<close> is a
  truthiness test: it skips a node whose coordinate is undefined and also one whose
  coordinate is \<^verbatim>\<open>0\<close>.
\<close>

fun findNodeAt :: "GraphEngine \<Rightarrow> real \<Rightarrow> real \<Rightarrow> GraphNode list \<Rightarrow> GraphNode option" where
  "findNodeAt engine px py [] = None"
| "findNodeAt engine px py (node # nodes) =
     (case (GraphNode.x node, GraphNode.y node) of
        (Some nx, Some ny) \<Rightarrow>
          if nx = 0 \<or> ny = 0 then findNodeAt engine px py nodes
          else
            let dx = px - nx;
                dy = py - ny;
                radius = getNodeRadius engine node;
                distance = sqrt (dx * dx + dy * dy)
            in if distance \<le> radius then Some node else findNodeAt engine px py nodes
      | _ \<Rightarrow> findNodeAt engine px py nodes)"

text \<open>
  What \<^verbatim>\<open>findNodeAt\<close> computes: the first node, in input order, that has two truthy
  coordinates and whose distance from the point is at most its radius.
\<close>

definition hit :: "GraphEngine \<Rightarrow> real \<Rightarrow> real \<Rightarrow> GraphNode \<Rightarrow> bool" where
  "hit engine px py node =
     (case (GraphNode.x node, GraphNode.y node) of
        (Some nx, Some ny) \<Rightarrow>
          nx \<noteq> 0 \<and> ny \<noteq> 0
          \<and> sqrt ((px - nx) * (px - nx) + (py - ny) * (py - ny)) \<le> getNodeRadius engine node
      | _ \<Rightarrow> False)"

text \<open>The configuration that the constructor builds when it is given no override.\<close>

definition default_config :: GraphEngineConfig where
  "default_config = \<lparr>width = 1200, height = 800, nodeRadius = 8, linkDistance = 100,
     chargeStrength = - 300, enableCollision = True\<rparr>"

text \<open>
  The drag handlers. Each takes the engine and the node and returns both, updated.
  \<^verbatim>\<open>dragStarted\<close> and \<^verbatim>\<open>dragEnded\<close> return at once when there is no simulation;
  \<^verbatim>\<open>dragEnded\<close> leaves the pin as it is (releasing it is commented out in the source).
\<close>

definition dragStarted :: "GraphEngine \<Rightarrow> GraphNode \<Rightarrow> DragEvent \<Rightarrow> GraphEngine \<times> GraphNode" where
  "dragStarted engine node event =
     (case simulation engine of
        None \<Rightarrow> (engine, node)
      | Some sim \<Rightarrow>
          (engine\<lparr>simulation :=
             Some (if active event = 0 then sim\<lparr>alphaTarget := 0.3, running := True\<rparr> else sim)\<rparr>,
           node\<lparr>fx := GraphNode.x node, fy := GraphNode.y node\<rparr>))"

definition dragged :: "GraphEngine \<Rightarrow> GraphNode \<Rightarrow> DragEvent \<Rightarrow> GraphEngine \<times> GraphNode" where
  "dragged engine node event =
     (engine, node\<lparr>fx := Some (DragEvent.x event), fy := Some (DragEvent.y event)\<rparr>)"

definition dragEnded :: "GraphEngine \<Rightarrow> GraphNode \<Rightarrow> DragEvent \<Rightarrow> GraphEngine \<times> GraphNode" where
  "dragEnded engine node event =
     (case simulation engine of
        None \<Rightarrow> (engine, node)
      | Some sim \<Rightarrow>
          (engine\<lparr>simulation :=
             Some (if active event = 0 then sim\<lparr>alphaTarget := 0\<rparr> else sim)\<rparr>,
           node))"

text \<open>
  One drag gesture on a node: \<^verbatim>\<open>dragStarted\<close>, then \<^verbatim>\<open>dragged\<close> for each move
  event in order, then \<^verbatim>\<open>dragEnded\<close>.
\<close>

fun dragged_all :: "GraphEngine \<times> GraphNode \<Rightarrow> DragEvent list \<Rightarrow> GraphEngine \<times> GraphNode" where
  "dragged_all state [] = state"
| "dragged_all (engine, node) (event # events) = dragged_all (dragged engine node event) events"

definition drag_gesture ::
  "GraphEngine \<Rightarrow> GraphNode \<Rightarrow> DragEvent \<Rightarrow> DragEvent list \<Rightarrow> DragEvent \<Rightarrow> GraphEngine \<times> GraphNode" where
  "drag_gesture engine node started moves ended =
     (case dragged_all (dragStarted engine node started) moves of
        (engine', node') \<Rightarrow> dragEnded engine' node' ended)"

section \<open>Analytics engine\<close>

subsection \<open>Adjacency and traversal of the connectivity statistics\<close>

type_synonym Adjacency = "(string \<times> string list) list"

text \<open>\<^verbatim>\<open>adjacency.get(a)?.add(b)\<close>: nothing happens when \<open>a\<close> is not a key.\<close>

definition add_neighbor :: "Adjacency \<Rightarrow> string \<Rightarrow> string \<Rightarrow> Adjacency" where
  "add_neighbor adjacency a b =
     (case map_of adjacency a of
        None \<Rightarrow> adjacency
      | Some neighbors \<Rightarrow> AList.update a (Set_add b neighbors) adjacency)"

text \<open>The body of \<^verbatim>\<open>edges.forEach\<close>: both directions of one edge.\<close>

definition add_edge :: "Adjacency \<Rightarrow> Edge \<Rightarrow> Adjacency" where
  "add_edge adjacency edge =
     add_neighbor (add_neighbor adjacency (source edge) (target edge))
       (target edge) (source edge)"

text \<open>
  The adjacency map: an empty neighbor set for every key of \<^verbatim>\<open>nodes\<close>, then the
  edges in order.
\<close>

definition buildAdjacency :: "NodeRecord \<Rightarrow> Edge list \<Rightarrow> Adjacency" where
  "buildAdjacency nodes edges =
     foldl add_edge
       (foldl (\<lambda>adjacency nodeId. AList.update nodeId [] adjacency) [] (Object_keys nodes))
       edges"

text \<open>\<^verbatim>\<open>adjacency.get(nodeId)?.forEach\<close> runs over the neighbors, over nothing for an
  id that is not a key.\<close>

definition neighbors_of :: "Adjacency \<Rightarrow> string \<Rightarrow> string list" where
  "neighbors_of adjacency nodeId =
     (case map_of adjacency nodeId of None \<Rightarrow> [] | Some neighbors \<Rightarrow> neighbors)"

text \<open>
  The recursive closure \<^verbatim>\<open>dfs\<close> with the set \<^verbatim>\<open>visited\<close> passed through:
  \<open>dfs\<close> adds the node and runs the \<^verbatim>\<open>forEach\<close> over its neighbors, which calls
  \<open>dfs\<close> on each neighbor that is not visited at that moment.
\<close>

function dfs :: "Adjacency \<Rightarrow> string set \<Rightarrow> string \<Rightarrow> string set"
  and dfs_forEach :: "Adjacency \<Rightarrow> string set \<Rightarrow> string list \<Rightarrow> string set" where
  "dfs adjacency visited nodeId =
     dfs_forEach adjacency (insert nodeId visited) (neighbors_of adjacency nodeId)"
| "dfs_forEach adjacency visited [] = visited"
| "dfs_forEach adjacency visited (neighbor # rest) =
     (if neighbor \<notin> visited
      then dfs_forEach adjacency (dfs adjacency visited neighbor) rest
      else dfs_forEach adjacency visited rest)"
  by pat_completeness auto

text \<open>
  The recursion ends: a call of \<open>dfs\<close> on a node that is not visited adds it to
  \<^verbatim>\<open>visited\<close>, and the nodes that can still be added are the neighbors that the
  adjacency lists hold and the ones the running \<^verbatim>\<open>forEach\<close> has left.
\<close>

definition all_neighbors :: "Adjacency \<Rightarrow> string set" where
  "all_neighbors adjacency = (\<Union>entry\<in>set adjacency. set (snd entry))"

lemma finite_all_neighbors: "finite (all_neighbors adjacency)"
  by (simp add: all_neighbors_def)

lemma neighbors_of_subset: "set (neighbors_of adjacency k) \<subseteq> all_neighbors adjacency"
proof (cases "map_of adjacency k")
  case None
  then show ?thesis by (simp add: neighbors_of_def)
next
  case (Some neighbors)
  then have "(k, neighbors) \<in> set adjacency" by (rule map_of_SomeD)
  then have "set neighbors \<subseteq> all_neighbors adjacency"
    by (force simp: all_neighbors_def)
  with Some show ?thesis by (simp add: neighbors_of_def)
qed

lemma dfs_grows_dom:
  "dfs_dfs_forEach_dom (Inl (adjacency, visited, k)) \<Longrightarrow> visited \<subseteq> dfs adjacency visited k"
  "dfs_dfs_forEach_dom (Inr (adjacency, visited, ks)) \<Longrightarrow> visited \<subseteq> dfs_forEach adjacency visited ks"
  by (induct rule: dfs_dfs_forEach.pinduct) (auto simp: dfs.psimps dfs_forEach.psimps)

definition dfs_todo :: "Adjacency \<times> string set \<times> string + Adjacency \<times> string set \<times> string list
    \<Rightarrow> string set \<times> nat \<times> nat" where
  "dfs_todo call =
     (case call of
        Inl (adjacency, visited, k) \<Rightarrow> (all_neighbors adjacency - insert k visited, 1, 0)
      | Inr (adjacency, visited, ks) \<Rightarrow> ((all_neighbors adjacency \<union> set ks) - visited, 0, length ks))"

termination dfs
proof (relation "inv_image (finite_psubset <*lex*> less_than <*lex*> less_than) dfs_todo")
  show "wf (inv_image (finite_psubset <*lex*> less_than <*lex*> less_than) dfs_todo)"
    by (intro wf_inv_image wf_lex_prod wf_finite_psubset wf_less_than)
next
  fix adjacency :: Adjacency and visited :: "string set" and nodeId :: string
  have "(all_neighbors adjacency \<union> set (neighbors_of adjacency nodeId)) - insert nodeId visited
      = all_neighbors adjacency - insert nodeId visited"
    using neighbors_of_subset [of adjacency nodeId] by auto
  then show "(Inr (adjacency, insert nodeId visited, neighbors_of adjacency nodeId),
              Inl (adjacency, visited, nodeId))
      \<in> inv_image (finite_psubset <*lex*> less_than <*lex*> less_than) dfs_todo"
    by (simp add: dfs_todo_def)
next
  fix adjacency :: Adjacency and visited :: "string set" and neighbor :: string
    and rest :: "string list"
  assume "neighbor \<notin> visited"
  then have "all_neighbors adjacency - insert neighbor visited
      \<subset> (all_neighbors adjacency \<union> set (neighbor # rest)) - visited"
    by auto
  then show "(Inl (adjacency, visited, neighbor), Inr (adjacency, visited, neighbor # rest))
      \<in> inv_image (finite_psubset <*lex*> less_than <*lex*> less_than) dfs_todo"
    by (simp add: dfs_todo_def finite_psubset_def finite_all_neighbors)
next
  fix adjacency :: Adjacency and visited :: "string set" and neighbor :: string
    and rest :: "string list"
  assume "dfs_dfs_forEach_dom (Inl (adjacency, visited, neighbor))"
  then have "visited \<subseteq> dfs adjacency visited neighbor" by (rule dfs_grows_dom)
  then have "(all_neighbors adjacency \<union> set rest) - dfs adjacency visited neighbor
      \<subseteq> (all_neighbors adjacency \<union> set (neighbor # rest)) - visited"
    by auto
  then show "(Inr (adjacency, dfs adjacency visited neighbor, rest),
              Inr (adjacency, visited, neighbor # rest))
      \<in> inv_image (finite_psubset <*lex*> less_than <*lex*> less_than) dfs_todo"
    by (auto simp: dfs_todo_def finite_psubset_def finite_all_neighbors)
next
  fix adjacency :: Adjacency and visited :: "string set" and neighbor :: string
    and rest :: "string list"
  have "(all_neighbors adjacency \<union> set rest) - visited
      \<subseteq> (all_neighbors adjacency \<union> set (neighbor # rest)) - visited"
    by auto
  then show "(Inr (adjacency, visited, rest), Inr (adjacency, visited, neighbor # rest))
      \<in> inv_image (finite_psubset <*lex*> less_than <*lex*> less_than) dfs_todo"
    by (auto simp: dfs_todo_def finite_psubset_def finite_all_neighbors)
qed

text \<open>
  The loop over \<^verbatim>\<open>Object.keys(nodes)\<close> that launches \<open>dfs\<close> from every key not
  visited so far and counts the launches; its state is \<^verbatim>\<open>visited\<close> and
  \<^verbatim>\<open>clusters\<close>.
\<close>

definition launch :: "Adjacency \<Rightarrow> string set \<times> nat \<Rightarrow> string \<Rightarrow> string set \<times> nat" where
  "launch adjacency state nodeId =
     (case state of (visited, clusters) \<Rightarrow>
        if nodeId \<notin> visited then (dfs adjacency visited nodeId, clusters + 1)
        else (visited, clusters))"

definition countClusters :: "Adjacency \<Rightarrow> string list \<Rightarrow> string set \<times> nat" where
  "countClusters adjacency keys = foldl (launch adjacency) ({}, 0) keys"

text \<open>
  For the statements about the traversal: the sequence of the nodes on which \<open>dfs\<close> is
  called, in call order. These functions follow the recursion of \<open>dfs\<close> and of the
  launching loop and record each call; they compute nothing that the program uses.
\<close>

lemma dfs_grows:
  "visited \<subseteq> dfs adjacency visited nodeId"
  "visited \<subseteq> dfs_forEach adjacency visited ks"
  by (induct adjacency visited nodeId and adjacency visited ks rule: dfs_dfs_forEach.induct)
    auto

function dfs_calls :: "Adjacency \<Rightarrow> string set \<Rightarrow> string \<Rightarrow> string list"
  and dfs_forEach_calls :: "Adjacency \<Rightarrow> string set \<Rightarrow> string list \<Rightarrow> string list" where
  "dfs_calls adjacency visited nodeId =
     nodeId # dfs_forEach_calls adjacency (insert nodeId visited) (neighbors_of adjacency nodeId)"
| "dfs_forEach_calls adjacency visited [] = []"
| "dfs_forEach_calls adjacency visited (neighbor # rest) =
     (if neighbor \<notin> visited
      then dfs_calls adjacency visited neighbor
             @ dfs_forEach_calls adjacency (dfs adjacency visited neighbor) rest
      else dfs_forEach_calls adjacency visited rest)"
  by pat_completeness auto

termination dfs_calls
proof (relation "inv_image (finite_psubset <*lex*> less_than <*lex*> less_than) dfs_todo")
  show "wf (inv_image (finite_psubset <*lex*> less_than <*lex*> less_than) dfs_todo)"
    by (intro wf_inv_image wf_lex_prod wf_finite_psubset wf_less_than)
next
  fix adjacency :: Adjacency and visited :: "string set" and nodeId :: string
  have "(all_neighbors adjacency \<union> set (neighbors_of adjacency nodeId)) - insert nodeId visited
      = all_neighbors adjacency - insert nodeId visited"
    using neighbors_of_subset [of adjacency nodeId] by auto
  then show "(Inr (adjacency, insert nodeId visited, neighbors_of adjacency nodeId),
              Inl (adjacency, visited, nodeId))
      \<in> inv_image (finite_psubset <*lex*> less_than <*lex*> less_than) dfs_todo"
    by (simp add: dfs_todo_def)
next
  fix adjacency :: Adjacency and visited :: "string set" and neighbor :: string
    and rest :: "string list"
  assume "neighbor \<notin> visited"
  then have "all_neighbors adjacency - insert neighbor visited
      \<subset> (all_neighbors adjacency \<union> set (neighbor # rest)) - visited"
    by auto
  then show "(Inl (adjacency, visited, neighbor), Inr (adjacency, visited, neighbor # rest))
      \<in> inv_image (finite_psubset <*lex*> less_than <*lex*> less_than) dfs_todo"
    by (simp add: dfs_todo_def finite_psubset_def finite_all_neighbors)
next
  fix adjacency :: Adjacency and visited :: "string set" and neighbor :: string
    and rest :: "string list"
  have "visited \<subseteq> dfs adjacency visited neighbor" by (rule dfs_grows)
  then have "(all_neighbors adjacency \<union> set rest) - dfs adjacency visited neighbor
      \<subseteq> (all_neighbors adjacency \<union> set (neighbor # rest)) - visited"
    by auto
  then show "(Inr (adjacency, dfs adjacency visited neighbor, rest),
              Inr (adjacency, visited, neighbor # rest))
      \<in> inv_image (finite_psubset <*lex*> less_than <*lex*> less_than) dfs_todo"
    by (auto simp: dfs_todo_def finite_psubset_def finite_all_neighbors)
next
  fix adjacency :: Adjacency and visited :: "string set" and neighbor :: string
    and rest :: "string list"
  have "(all_neighbors adjacency \<union> set rest) - visited
      \<subseteq> (all_neighbors adjacency \<union> set (neighbor # rest)) - visited"
    by auto
  then show "(Inr (adjacency, visited, rest), Inr (adjacency, visited, neighbor # rest))
      \<in> inv_image (finite_psubset <*lex*> less_than <*lex*> less_than) dfs_todo"
    by (auto simp: dfs_todo_def finite_psubset_def finite_all_neighbors)
qed

text \<open>The calls of \<open>dfs\<close> made by the launching loop, one list per launch.\<close>

fun launches :: "Adjacency \<Rightarrow> string set \<Rightarrow> string list \<Rightarrow> string list list" where
  "launches adjacency visited [] = []"
| "launches adjacency visited (nodeId # keys) =
     (if nodeId \<notin> visited
      then dfs_calls adjacency visited nodeId
             # launches adjacency (dfs adjacency visited nodeId) keys
      else launches adjacency visited keys)"

text \<open>
  The same traversal with the call stack as a resource. \<open>frames\<close> is the number of
  further nested calls of \<open>dfs\<close> for which the stack has room: a call made when there
  is no room raises a RangeError, which ends the running \<^verbatim>\<open>forEach\<close> loops and the
  whole computation; a call that returns gives its room back.
\<close>

fun dfs_on_stack :: "nat \<Rightarrow> Adjacency \<Rightarrow> string set \<Rightarrow> string \<Rightarrow> error + string set"
  and dfs_forEach_on_stack ::
    "nat \<Rightarrow> Adjacency \<Rightarrow> string set \<Rightarrow> string list \<Rightarrow> error + string set" where
  "dfs_on_stack frames adjacency visited nodeId =
     (if frames = 0 then Inl RangeError
      else dfs_forEach_on_stack (frames - 1) adjacency (insert nodeId visited)
             (neighbors_of adjacency nodeId))"
| "dfs_forEach_on_stack frames adjacency visited [] = Inr visited"
| "dfs_forEach_on_stack frames adjacency visited (neighbor # rest) =
     (if neighbor \<notin> visited
      then (case dfs_on_stack frames adjacency visited neighbor of
              Inl e \<Rightarrow> Inl e
            | Inr visited' \<Rightarrow> dfs_forEach_on_stack frames adjacency visited' rest)
      else dfs_forEach_on_stack frames adjacency visited rest)"

fun countClusters_on_stack ::
  "nat \<Rightarrow> Adjacency \<Rightarrow> string set \<times> nat \<Rightarrow> string list \<Rightarrow> error + string set \<times> nat" where
  "countClusters_on_stack frames adjacency state [] = Inr state"
| "countClusters_on_stack frames adjacency (visited, clusters) (nodeId # keys) =
     (if nodeId \<notin> visited
      then (case dfs_on_stack frames adjacency visited nodeId of
              Inl e \<Rightarrow> Inl e
            | Inr visited' \<Rightarrow>
                countClusters_on_stack frames adjacency (visited', clusters + 1) keys)
      else countClusters_on_stack frames adjacency (visited, clusters) keys)"

text \<open>Two ids are linked when some edge joins them, in either direction.\<close>

definition linked :: "Edge list \<Rightarrow> string \<Rightarrow> string \<Rightarrow> bool" where
  "linked es a b =
     list_ex (\<lambda>e. (source e = a \<and> target e = b) \<or> (source e = b \<and> target e = a)) es"

subsection \<open>The statistics records\<close>

record NodeStats =
  total :: nat
  byType :: "nat ByType"
  withImages :: nat
  withDescriptions :: nat
  withSeries :: nat

record NodeConnection =
  nodeId :: string
  label :: string
  connections :: nat

record EdgeStats =
  total :: nat
  averageConnections :: number
  mostConnected :: "NodeConnection list"
  leastConnected :: "NodeConnection list"

record ConnectivityStats =
  averageDegree :: number
  density :: number
  clusters :: nat
  isolatedNodes :: nat

text \<open>
  The entries \<^verbatim>\<open>{ series, count }\<close>, \<^verbatim>\<open>{ theme, connections }\<close>,
  \<^verbatim>\<open>{ author, books }\<close> and \<^verbatim>\<open>{ decade, count }\<close> are pairs of a string and a count.
\<close>

record ContentStats =
  totalSeries :: nat
  seriesDistribution :: "(string \<times> nat) list"
  topThemes :: "(string \<times> nat) list"
  topAuthors :: "(string \<times> nat) list"

record TemporalStats =
  earliestYear :: "int option"
  latestYear :: "int option"
  yearRange :: int
  booksPerDecade :: "(string \<times> nat) list"

text \<open>
  The two bounds of the JavaScript engine that the analytics can reach: how deep calls
  of \<open>dfs\<close> can nest before the call stack is exhausted, and how many arguments a
  call such as \<^verbatim>\<open>Math.min(...years)\<close> can take. Their values depend on the engine.
\<close>

record EngineLimits =
  maxCallDepth :: nat
  maxArguments :: nat

text \<open>
  \<^verbatim>\<open>xs.sort((a, b) => key(b) - key(a))\<close>: a stable sort by descending key
  (\<^const>\<open>sort_key\<close> is a stable insertion sort).
\<close>

definition sort_desc :: "('a \<Rightarrow> nat) \<Rightarrow> 'a list \<Rightarrow> 'a list" where
  "sort_desc key xs = sort_key (\<lambda>e. - int (key e)) xs"

subsection \<open>Node statistics\<close>

definition calculateNodeStats :: "Node list \<Rightarrow> NodeStats" where
  "calculateNodeStats nodes =
     \<lparr>NodeStats.total = length nodes,
      byType =
        \<lparr>book = length (filter (\<lambda>n. Node.type n = ''book'') nodes),
         author = length (filter (\<lambda>n. Node.type n = ''author'') nodes),
         theme = length (filter (\<lambda>n. Node.type n = ''theme'') nodes)\<rparr>,
      withImages = length (filter (\<lambda>n. truthy_str (imageUrl n)) nodes),
      withDescriptions = length (filter (\<lambda>n. truthy_str (description n)) nodes),
      withSeries = length (filter (\<lambda>n. truthy_str (series n)) nodes)\<rparr>"

subsection \<open>Edge statistics\<close>

text \<open>
  The map \<^verbatim>\<open>connectionCount\<close> after the loop over the edges: each edge counts once for
  its source and once for its target, whether or not the id is a key of \<^verbatim>\<open>nodes\<close>.
\<close>

definition connectionCount :: "Edge list \<Rightarrow> (string \<times> nat) list" where
  "connectionCount edges =
     foldl (\<lambda>m edge. increment (increment m (source edge)) (target edge)) [] edges"

text \<open>The ids that occur as the source or the target of an edge.\<close>

definition endpoints :: "Edge list \<Rightarrow> string set" where
  "endpoints es = source ` set es \<union> target ` set es"

text \<open>\<^verbatim>\<open>nodes[nodeId]?.label || nodeId\<close>\<close>

definition label_or_id :: "NodeRecord \<Rightarrow> string \<Rightarrow> string" where
  "label_or_id nodes k =
     (case map_of nodes k of
        None \<Rightarrow> k
      | Some node \<Rightarrow> if Node.label node = [] then k else Node.label node)"

definition nodeConnections :: "NodeRecord \<Rightarrow> Edge list \<Rightarrow> NodeConnection list" where
  "nodeConnections nodes edges =
     sort_desc connections
       (map (\<lambda>(k, c). \<lparr>nodeId = k, label = label_or_id nodes k, connections = c\<rparr>)
          (connectionCount edges))"

definition calculateEdgeStats :: "NodeRecord \<Rightarrow> Edge list \<Rightarrow> EdgeStats" where
  "calculateEdgeStats nodes edges =
     (let counts = connectionCount edges;
          ranked = nodeConnections nodes edges;
          totalConnections = sum_list (map snd counts);
          avgConnections =
            (if length counts > 0
             then js_div (Num (of_nat totalConnections)) (Num (of_nat (length counts)))
             else Num 0)
      in \<lparr>EdgeStats.total = length edges,
          averageConnections = js_div (Math_round (js_mul avgConnections (Num 10))) (Num 10),
          mostConnected = take 5 ranked,
          leastConnected = rev (drop (length ranked - 5) ranked)\<rparr>)"

subsection \<open>Connectivity statistics\<close>

text \<open>
  The record that \<^verbatim>\<open>calculateConnectivityStats\<close> computes. Whether the engine's call
  stack suffices for the traversal is the subject of the variant \<open>on_stack\<close> below.
\<close>

definition calculateConnectivityStats :: "NodeRecord \<Rightarrow> Edge list \<Rightarrow> ConnectivityStats" where
  "calculateConnectivityStats nodes edges =
     (let nodeCount = length (Object_keys nodes);
          edgeCount = length edges;
          adjacency = buildAdjacency nodes edges;
          totalDegree = sum_list (map (\<lambda>(k, neighbors). length neighbors) adjacency);
          averageDegree =
            (if nodeCount > 0 then js_div (Num (of_nat totalDegree)) (Num (of_nat nodeCount))
             else Num 0);
          maxEdges = (of_nat nodeCount * (of_nat nodeCount - 1)) / (2 :: real);
          density = (if maxEdges > 0 then js_div (Num (of_nat edgeCount)) (Num maxEdges) else Num 0);
          isolated = length (filter (\<lambda>(k, neighbors). length neighbors = 0) adjacency)
      in \<lparr>averageDegree = js_div (Math_round (js_mul averageDegree (Num 10))) (Num 10),
          density = js_div (Math_round (js_mul density (Num 1000))) (Num 1000),
          clusters = snd (countClusters adjacency (Object_keys nodes)),
          isolatedNodes = isolated\<rparr>)"

text \<open>
  \<^verbatim>\<open>calculateConnectivityStats\<close> as it runs: the traversal is the only part of it
  that can raise, and when it returns, the record holds the count that the loop
  reached.
\<close>

definition calculateConnectivityStats_on_stack ::
  "EngineLimits \<Rightarrow> NodeRecord \<Rightarrow> Edge list \<Rightarrow> error + ConnectivityStats" where
  "calculateConnectivityStats_on_stack limits nodes edges =
     (case countClusters_on_stack (maxCallDepth limits) (buildAdjacency nodes edges) ({}, 0)
             (Object_keys nodes) of
        Inl e \<Rightarrow> Inl e
      | Inr (visited, launched) \<Rightarrow>
          Inr ((calculateConnectivityStats nodes edges)\<lparr>clusters := launched\<rparr>))"

subsection \<open>Content statistics\<close>

text \<open>
  The maps that \<^verbatim>\<open>calculateContentStats\<close> builds. An edge is matched against a theme
  or an author by comparing its \<^verbatim>\<open>source\<close> and \<^verbatim>\<open>target\<close> with the node's
  \<^verbatim>\<open>label\<close>; the type of an endpoint is that of the first node whose label is the
  endpoint.
\<close>

definition seriesMap :: "Node list \<Rightarrow> (string \<times> nat) list" where
  "seriesMap nodes =
     foldl (\<lambda>m n. case series n of None \<Rightarrow> m | Some s \<Rightarrow> increment m s) []
       (filter (\<lambda>n. truthy_str (series n)) nodes)"

definition themeConnections :: "Node list \<Rightarrow> Edge list \<Rightarrow> (string \<times> nat) list" where
  "themeConnections nodes edges =
     foldl (\<lambda>m theme.
              AList.update (Node.label theme)
                (length (filter (\<lambda>e. source e = Node.label theme \<or> target e = Node.label theme)
                           edges))
                m)
       [] (filter (\<lambda>n. Node.type n = ''theme'') nodes)"

definition is_book_label :: "Node list \<Rightarrow> string \<Rightarrow> bool" where
  "is_book_label nodes endpoint =
     (case List.find (\<lambda>n. Node.label n = endpoint) nodes of
        None \<Rightarrow> False
      | Some n \<Rightarrow> Node.type n = ''book'')"

definition authorBooks :: "Node list \<Rightarrow> Edge list \<Rightarrow> (string \<times> nat) list" where
  "authorBooks nodes edges =
     foldl (\<lambda>m author.
              AList.update (Node.label author)
                (length (filter (\<lambda>e. (source e = Node.label author \<or> target e = Node.label author)
                                       \<and> (is_book_label nodes (source e)
                                            \<or> is_book_label nodes (target e)))
                           edges))
                m)
       [] (filter (\<lambda>n. Node.type n = ''author'') nodes)"

text \<open>The two counts as functions of the label, for the statements about them.\<close>

definition theme_count :: "Edge list \<Rightarrow> string \<Rightarrow> nat" where
  "theme_count es l = length (filter (\<lambda>e. source e = l \<or> target e = l) es)"

definition author_count :: "Node list \<Rightarrow> Edge list \<Rightarrow> string \<Rightarrow> nat" where
  "author_count ns es l =
     length (filter (\<lambda>e. (source e = l \<or> target e = l)
                          \<and> (is_book_label ns (source e) \<or> is_book_label ns (target e))) es)"

definition calculateContentStats :: "Node list \<Rightarrow> Edge list \<Rightarrow> ContentStats" where
  "calculateContentStats nodes edges =
     \<lparr>totalSeries = length (seriesMap nodes),
      seriesDistribution = take 10 (sort_desc snd (seriesMap nodes)),
      topThemes = take 10 (sort_desc snd (themeConnections nodes edges)),
      topAuthors = take 10 (sort_desc snd (authorBooks nodes edges))\<rparr>"

subsection \<open>Temporal statistics\<close>

text \<open>
  \<^verbatim>\<open>nodes.filter(n => n.publicationYear).map(n => n.publicationYear!)\<close>: the years
  that are present and not \<open>0\<close>. A year is a whole number, of any size.
\<close>

definition years_of :: "Node list \<Rightarrow> int list" where
  "years_of nodes =
     map (\<lambda>n. the (publicationYear n)) (filter (\<lambda>n. truthy_num (publicationYear n)) nodes)"

text \<open>
  The decade of a year is \<^verbatim>\<open>Math.floor(year / 10) * 10\<close>, its label is the decade
  followed by \<open>s\<close>; the histogram is sorted by \<^verbatim>\<open>parseInt\<close> of the label, which
  reads the decade back.
\<close>

definition decadeMap :: "int list \<Rightarrow> (string \<times> nat) list" where
  "decadeMap years =
     foldl (\<lambda>m year. increment m (show_int ((year div 10) * 10) @ ''s'')) [] years"

text \<open>
  \<^verbatim>\<open>calculateTemporalStats\<close>. \<^verbatim>\<open>Math.min(...years)\<close> passes every year as an
  argument of one call, which raises a RangeError when there are more years than the
  engine accepts arguments.
\<close>

definition calculateTemporalStats :: "EngineLimits \<Rightarrow> Node list \<Rightarrow> error + TemporalStats" where
  "calculateTemporalStats limits nodes =
     (case years_of nodes of
        [] \<Rightarrow> Inr \<lparr>earliestYear = None, latestYear = None, yearRange = 0, booksPerDecade = []\<rparr>
      | first # others \<Rightarrow>
          if length (first # others) > maxArguments limits then Inl RangeError
          else
            let earliest = fold min others first;
                latest = fold max others first
            in Inr \<lparr>earliestYear = Some earliest,
                    latestYear = Some latest,
                    yearRange = latest - earliest,
                    booksPerDecade =
                      sort_key (\<lambda>(decade, c). case parseInt decade of None \<Rightarrow> 0 | Some v \<Rightarrow> v)
                        (decadeMap (first # others))\<rparr>)"

subsection \<open>The statistics of a snapshot\<close>

record GraphStats =
  nodes :: NodeStats
  edges :: EdgeStats
  connectivity :: ConnectivityStats
  content :: ContentStats
  temporal :: TemporalStats

text \<open>
  \<^verbatim>\<open>calculateGraphStats\<close>: the five parts in the order of the object literal; an
  exception of a part ends the call.
\<close>

definition calculateGraphStats :: "EngineLimits \<Rightarrow> NodeRecord \<Rightarrow> Edge list \<Rightarrow> error + GraphStats" where
  "calculateGraphStats limits nodeRecord edgeList =
     (let nodeList = Object_values nodeRecord
      in case calculateConnectivityStats_on_stack limits nodeRecord edgeList of
           Inl e \<Rightarrow> Inl e
         | Inr connectivityStats \<Rightarrow>
             (case calculateTemporalStats limits nodeList of
                Inl e \<Rightarrow> Inl e
              | Inr temporalStats \<Rightarrow>
                  Inr \<lparr>nodes = calculateNodeStats nodeList,
                       edges = calculateEdgeStats nodeRecord edgeList,
                       connectivity = connectivityStats,
                       content = calculateContentStats nodeList edgeList,
                       temporal = temporalStats\<rparr>))"

section \<open>CSV export of the statistics\<close>

text \<open>\<^verbatim>\<open>lines.join('\n')\<close>\<close>

definition newline :: char where
  "newline = CHR 0x0A"

fun join_lines :: "string list \<Rightarrow> string" where
  "join_lines [] = []"
| "join_lines [l] = l"
| "join_lines (l # l' # ls) = l @ newline # join_lines (l' # ls)"

text \<open>A year that may be \<^verbatim>\<open>null\<close>, in a template string.\<close>

definition show_year :: "int option \<Rightarrow> string" where
  "show_year v = (case v of None \<Rightarrow> ''null'' | Some i \<Rightarrow> show_int i)"

text \<open>
  \<^verbatim>\<open>exportStatsAsCSV\<close>. The counts are rendered in decimal. The rendering of the three
  ratios, which need not be integers, is the parameter \<open>numberToString\<close>.
\<close>

definition exportStatsAsCSV :: "(number \<Rightarrow> string) \<Rightarrow> GraphStats \<Rightarrow> string" where
  "exportStatsAsCSV numberToString stats =
     join_lines
       ([''Graph Statistics Export'',
         '''',
         ''Node Statistics'',
         ''Total Nodes,'' @ show_nat (NodeStats.total (nodes stats)),
         ''Books,'' @ show_nat (book (byType (nodes stats))),
         ''Authors,'' @ show_nat (author (byType (nodes stats))),
         ''Themes,'' @ show_nat (theme (byType (nodes stats))),
         ''With Images,'' @ show_nat (withImages (nodes stats)),
         '''',
         ''Edge Statistics'',
         ''Total Edges,'' @ show_nat (EdgeStats.total (edges stats)),
         ''Average Connections,'' @ numberToString (averageConnections (edges stats)),
         '''',
         ''Connectivity'',
         ''Average Degree,'' @ numberToString (averageDegree (connectivity stats)),
         ''Density,'' @ numberToString (density (connectivity stats)),
         ''Clusters,'' @ show_nat (clusters (connectivity stats)),
         '''']
        @ (if truthy_num (earliestYear (temporal stats))
           then [''Temporal Range'',
                 ''Earliest,'' @ show_year (earliestYear (temporal stats)),
                 ''Latest,'' @ show_year (latestYear (temporal stats)),
                 ''Range,'' @ show_int (yearRange (temporal stats)) @ '' years'']
           else []))"

text \<open>
  A reader of the export, after the format the spec gives: the text is split at
  newlines, a line with a comma is a row whose key is the part before the first comma
  and whose value is the rest, and the number of a key is the decimal value of the
  first row with that key.
\<close>

fun split_lines_from :: "string \<Rightarrow> string \<Rightarrow> string list" where
  "split_lines_from current [] = [current]"
| "split_lines_from current (c # rest) =
     (if c = newline then current # split_lines_from [] rest
      else split_lines_from (current @ [c]) rest)"

definition split_lines :: "string \<Rightarrow> string list" where
  "split_lines s = split_lines_from [] s"

definition parse_row :: "string \<Rightarrow> (string \<times> string) option" where
  "parse_row line =
     (case dropWhile (\<lambda>c. c \<noteq> CHR '','') line of
        [] \<Rightarrow> None
      | comma # v \<Rightarrow> Some (takeWhile (\<lambda>c. c \<noteq> CHR '','') line, v))"

definition parse_rows :: "string \<Rightarrow> (string \<times> string) list" where
  "parse_rows s = List.map_filter parse_row (split_lines s)"

definition parse_number :: "string \<Rightarrow> nat option" where
  "parse_number v = (if v \<noteq> [] \<and> list_all is_digit v then Some (read_digits v) else None)"

definition lookup_number :: "string \<Rightarrow> string \<Rightarrow> nat option" where
  "lookup_number k s = (case map_of (parse_rows s) k of None \<Rightarrow> None | Some v \<Rightarrow> parse_number v)"

section \<open>An example snapshot\<close>

text \<open>
  The snapshot of the spec's example scenario, used to instantiate the theorems below: a
  book \<open>A\<close>, an author \<open>B\<close> and a theme \<open>C\<close>, with the edges \<open>A-B\<close> and \<open>A-C\<close>.
\<close>

definition ex_A :: Node where
  "ex_A = \<lparr>Node.id = ''A'', label = ''Dune'', type = ''book'', description = None,
            imageUrl = None, series = None, publicationYear = Some 1965\<rparr>"

definition ex_B :: Node where
  "ex_B = \<lparr>Node.id = ''B'', label = ''Frank Herbert'', type = ''author'', description = None,
            imageUrl = None, series = None, publicationYear = None\<rparr>"

definition ex_C :: Node where
  "ex_C = \<lparr>Node.id = ''C'', label = ''Ecology'', type = ''theme'', description = None,
            imageUrl = None, series = None, publicationYear = None\<rparr>"

definition ex_nodes :: NodeRecord where
  "ex_nodes = [(''A'', ex_A), (''B'', ex_B), (''C'', ex_C)]"

definition ex_AB :: Edge where
  "ex_AB = \<lparr>Edge.id = ''e1'', source = ''A'', target = ''B''\<rparr>"

definition ex_AC :: Edge where
  "ex_AC = \<lparr>Edge.id = ''e2'', source = ''A'', target = ''C''\<rparr>"

definition ex_BC :: Edge where
  "ex_BC = \<lparr>Edge.id = ''e3'', source = ''B'', target = ''C''\<rparr>"

text \<open>A dangling edge: no node has the id \<open>X\<close>.\<close>

definition ex_AX :: Edge where
  "ex_AX = \<lparr>Edge.id = ''e4'', source = ''A'', target = ''X''\<rparr>"

text \<open>Two edges that name their endpoints by label.\<close>

definition ex_wrote :: Edge where
  "ex_wrote = \<lparr>Edge.id = ''e5'', source = ''Frank Herbert'', target = ''Dune''\<rparr>"

definition ex_about :: Edge where
  "ex_about = \<lparr>Edge.id = ''e6'', source = ''Dune'', target = ''Ecology''\<rparr>"

definition ex_no_authors :: FilterCriteria where
  "ex_no_authors = \<lparr>FilterCriteria.id = ''c1'', name = ''Node Types'', enabled = True,
     type = T_nodeType,
     config = NodeTypeFilterConfig \<lparr>book = True, author = False, theme = True\<rparr>\<rparr>"

definition ex_years_off :: FilterCriteria where
  "ex_years_off = \<lparr>FilterCriteria.id = ''c2'', name = ''Years'', enabled = False,
     type = T_publicationYear,
     config = PublicationYearFilterConfig After (Some 1900) None None\<rparr>"

definition ex_years_on :: FilterCriteria where
  "ex_years_on = \<lparr>FilterCriteria.id = ''c3'', name = ''Years'', enabled = True,
     type = T_publicationYear,
     config = PublicationYearFilterConfig After (Some 1900) None None\<rparr>"

lemmas ex_node_defs = ex_A_def ex_B_def ex_C_def ex_nodes_def

lemmas ex_edge_defs = ex_AB_def ex_AC_def ex_BC_def ex_AX_def ex_wrote_def ex_about_def

lemmas ex_filter_defs = ex_no_authors_def ex_years_off_def ex_years_on_def

text \<open>
  Limits of the order of those of current engines, the statistics of the example
  snapshot, and a family of large snapshots: \<open>n\<close> dated books \<open>0\<close>, \<open>1\<close>, ... with an
  edge from each to the next (a path).
\<close>

definition ex_limits :: EngineLimits where
  "ex_limits = \<lparr>maxCallDepth = 10000, maxArguments = 100000\<rparr>"

definition ex_stats :: GraphStats where
  "ex_stats =
     \<lparr>nodes = calculateNodeStats (Object_values ex_nodes),
      edges = calculateEdgeStats ex_nodes [ex_AB, ex_AC],
      connectivity = calculateConnectivityStats ex_nodes [ex_AB, ex_AC],
      content = calculateContentStats (Object_values ex_nodes) [ex_AB, ex_AC],
      temporal = \<lparr>earliestYear = Some 1965, latestYear = Some 1965, yearRange = 0,
                   booksPerDecade = [(''1960s'', 1)]\<rparr>\<rparr>"

definition path_node :: "nat \<Rightarrow> Node" where
  "path_node i = \<lparr>Node.id = show_nat i, label = show_nat i, type = ''book'', description = None,
                   imageUrl = None, series = None, publicationYear = Some 2000\<rparr>"

definition path_nodes :: "nat \<Rightarrow> NodeRecord" where
  "path_nodes n = map (\<lambda>i. (show_nat i, path_node i)) [0..<n]"

definition path_edges :: "nat \<Rightarrow> Edge list" where
  "path_edges n =
     map (\<lambda>i. \<lparr>Edge.id = show_nat i, source = show_nat i, target = show_nat (Suc i)\<rparr>) [0..<n - 1]"

text \<open>
  For the layout engine: an engine with the default configuration and a running
  simulation, a book at depth 0 placed on the left edge of the canvas (its \<open>x\<close> is
  \<open>0\<close>), and the events of a drag gesture.
\<close>

definition ex_engine :: GraphEngine where
  "ex_engine = \<lparr>simulation = Some \<lparr>alphaTarget = 0, running = True\<rparr>,
     config = default_config\<rparr>"

definition ex_edge_node :: GraphNode where
  "ex_edge_node = \<lparr>GraphNode.id = ''A'', type = Book, label = ''Dune'', x = Some 0,
     y = Some 120, fx = None, fy = None, expanded = False, depth = 0\<rparr>"

definition ex_event :: "real \<Rightarrow> real \<Rightarrow> DragEvent" where
  "ex_event px py = \<lparr>active = 0, x = px, y = py\<rparr>"

section \<open>Properties of the decimal rendering\<close>

lemma digit_char_is_digit: "d < 10 \<Longrightarrow> is_digit (digit_char d)"
  by (simp add: is_digit_def digit_char_def)

lemma digit_value_digit_char: "d < 10 \<Longrightarrow> digit_value (digit_char d) = d"
  by (simp add: digit_value_def digit_char_def)

lemma digit_char_not_newline: "d < 10 \<Longrightarrow> digit_char d \<noteq> newline"
  by (auto simp: digit_char_def newline_def dest!: arg_cong [where f = "of_char :: char \<Rightarrow> nat"])

lemma show_nat_digits: "list_all is_digit (show_nat n) \<and> show_nat n \<noteq> []"
proof (induction n rule: show_nat.induct)
  case (1 n)
  show ?case
  proof (cases "n < 10")
    case True
    then show ?thesis by (subst (1 2) show_nat.simps) (simp add: digit_char_is_digit)
  next
    case False
    with 1 show ?thesis by (subst (1 2) show_nat.simps) (simp add: digit_char_is_digit)
  qed
qed

lemma read_digits_snoc: "read_digits (ds @ [c]) = read_digits ds * 10 + digit_value c"
  by (simp add: read_digits_def)

lemma read_show_nat: "read_digits (show_nat n) = n"
proof (induction n rule: show_nat.induct)
  case (1 n)
  show ?case
  proof (cases "n < 10")
    case True
    then show ?thesis
      by (subst show_nat.simps) (simp add: read_digits_def digit_value_digit_char)
  next
    case False
    with 1 have "read_digits (show_nat (n div 10)) = n div 10" by simp
    with False show ?thesis
      by (subst show_nat.simps) (simp add: read_digits_snoc digit_value_digit_char)
  qed
qed

lemma parse_number_show_nat: "parse_number (show_nat n) = Some n"
  by (simp add: parse_number_def show_nat_digits read_show_nat)

lemma is_digit_not_newline: "is_digit c \<Longrightarrow> c \<noteq> newline"
  by (auto simp: is_digit_def newline_def)

lemma show_nat_no_newline: "newline \<notin> set (show_nat n)"
  using show_nat_digits [of n] is_digit_not_newline by (auto simp: list_all_iff)

lemma show_nat_inj: "show_nat i = show_nat j \<longleftrightarrow> i = j"
proof
  assume "show_nat i = show_nat j"
  then have "read_digits (show_nat i) = read_digits (show_nat j)" by (rule arg_cong)
  then show "i = j" by (simp only: read_show_nat)
qed simp

section \<open>Properties of the filter engine\<close>

lemma applyCriterion_disabled:
  "\<not> enabled c \<Longrightarrow> applyCriterion node c = Inr True"
  by (simp add: applyCriterion_def)

lemma applyCriterion_returns:
  "config_matches c \<Longrightarrow> \<exists>b. applyCriterion node c = Inr b"
  by (auto simp: applyCriterion_def config_matches_def Let_def
      split: FilterType.splits FilterConfig.splits option.splits SeriesMode.splits)

lemma applyFilters_returns:
  "list_all config_matches criteria \<Longrightarrow> \<exists>b. applyFilters node criteria = Inr b"
proof (induction criteria)
  case Nil
  have "applyFilters node [] = Inr True" by simp
  then show ?case by blast
next
  case (Cons c cs)
  then obtain b where b: "applyCriterion node c = Inr b"
    using applyCriterion_returns by fastforce
  show ?case
  proof (cases b)
    case True
    with b Cons show ?thesis by simp
  next
    case False
    with b have "applyFilters node (c # cs) = Inr False" by simp
    then show ?thesis by blast
  qed
qed

lemma applyFilters_passed_iff:
  "applyFilters node criteria = Inr True \<longleftrightarrow>
     (\<forall>c\<in>set criteria. applyCriterion node c = Inr True)"
  by (induction criteria) (auto split: sum.splits)

lemma applyFilters_all_disabled:
  "\<forall>c\<in>set criteria. \<not> enabled c \<Longrightarrow> applyFilters node criteria = Inr True"
  by (simp add: applyFilters_passed_iff applyCriterion_disabled)

lemma update_new_key:
  "k \<notin> fst ` set al \<Longrightarrow> AList.update k v al = al @ [(k, v)]"
  by (induction al) auto

lemma filterNodes_loop_result:
  assumes "filterNodes_loop entries criteria filtered = Inr result"
    and "distinct (map fst entries)"
    and "fst ` set entries \<inter> fst ` set (own filtered) = {}"
  shows "own result = own filtered
           @ filter (\<lambda>(k, node). k \<noteq> ''__proto__'' \<and> applyFilters node criteria = Inr True)
               entries"
  using assms
proof (induction entries arbitrary: filtered)
  case Nil
  then show ?case by simp
next
  case (Cons entry rest)
  obtain k node where entry: "entry = (k, node)" by (cases entry)
  from Cons.prems(1) entry obtain passed where
    passed: "applyFilters node criteria = Inr passed"
    by (auto split: sum.splits)
  let ?filtered' = "if passed then assign filtered k node else filtered"
  from Cons.prems(1) entry passed have run: "filterNodes_loop rest criteria ?filtered' = Inr result"
    by simp
  from Cons.prems(3) entry have fresh: "k \<notin> fst ` set (own filtered)" by auto
  then have upd: "AList.update k node (own filtered) = own filtered @ [(k, node)]"
    by (rule update_new_key)
  from Cons.prems(2,3) entry have "fst ` set rest \<inter> fst ` set (own ?filtered') = {}"
    by (auto simp: upd assign_def)
  moreover from Cons.prems(2) have "distinct (map fst rest)" by simp
  ultimately have "own result = own ?filtered'
      @ filter (\<lambda>(k, node). k \<noteq> ''__proto__'' \<and> applyFilters node criteria = Inr True) rest"
    using Cons.IH run by blast
  then show ?case using entry passed upd by (cases passed) (auto simp: assign_def)
qed

lemma filterNodes_loop_returns_if:
  assumes "\<And>node. \<exists>b. applyFilters node criteria = Inr b"
  shows "\<exists>result. filterNodes_loop entries criteria filtered = Inr result"
proof (induction entries arbitrary: filtered)
  case Nil
  show ?case by simp
next
  case (Cons entry rest)
  obtain k node where entry: "entry = (k, node)" by (cases entry)
  from assms obtain b where "applyFilters node criteria = Inr b" by blast
  then show ?case using Cons.IH entry by simp
qed

lemma filterNodes_loop_returns:
  "list_all config_matches criteria \<Longrightarrow> \<exists>result. filterNodes_loop entries criteria filtered = Inr result"
  by (rule filterNodes_loop_returns_if) (rule applyFilters_returns)

text \<open>
  What \<^verbatim>\<open>filterNodes\<close> computes for a record of nodes (its keys distinct): when the
  call returns, the own entries of the result are, in order, the entries of the input
  whose key is not \<^verbatim>\<open>__proto__\<close> and whose node passes every enabled criterion; the
  call returns whenever every criterion's config is of the kind its type names.
\<close>

lemma filterNodes_own_entries:
  assumes "distinct (map fst entries)"
  shows "(filterNodes entries criteria = Inr result \<longrightarrow>
            own result = filter (\<lambda>(k, node). k \<noteq> ''__proto__''
               \<and> (\<forall>c\<in>set criteria. enabled c \<longrightarrow> applyCriterion node c = Inr True)) entries)
       \<and> (list_all config_matches criteria \<longrightarrow> (\<exists>r. filterNodes entries criteria = Inr r))"
proof (intro conjI impI)
  assume run: "filterNodes entries criteria = Inr result"
  have passes: "applyFilters node criteria = Inr True \<longleftrightarrow>
      (\<forall>c\<in>set criteria. enabled c \<longrightarrow> applyCriterion node c = Inr True)" for node
    using applyCriterion_disabled by (auto simp: applyFilters_passed_iff)
  have "own result = own \<lparr>proto = None, own = []\<rparr>
      @ filter (\<lambda>(k, node). k \<noteq> ''__proto__'' \<and> applyFilters node criteria = Inr True) entries"
    by (rule filterNodes_loop_result [OF run [unfolded filterNodes_def] assms]) simp
  then show "own result = filter (\<lambda>(k, node). k \<noteq> ''__proto__''
      \<and> (\<forall>c\<in>set criteria. enabled c \<longrightarrow> applyCriterion node c = Inr True)) entries"
    by (simp add: passes)
next
  assume "list_all config_matches criteria"
  then show "\<exists>r. filterNodes entries criteria = Inr r"
    unfolding filterNodes_def by (rule filterNodes_loop_returns)
qed

text \<open>
  In particular, for a record without the key \<^verbatim>\<open>__proto__\<close>, with no criterion or
  with every criterion disabled, the call returns and the entries of the result are
  those of the input.
\<close>

lemma filterNodes_all_disabled:
  assumes "distinct (map fst entries)"
    and "''__proto__'' \<notin> fst ` set entries"
    and "\<forall>c\<in>set criteria. \<not> enabled c"
  shows "\<exists>r. filterNodes entries criteria = Inr r \<and> own r = entries"
proof -
  have pass: "applyFilters node criteria = Inr True" for node
    by (rule applyFilters_all_disabled [OF assms(3)])
  then have "\<exists>r. filterNodes_loop entries criteria \<lparr>proto = None, own = []\<rparr> = Inr r"
    by (intro filterNodes_loop_returns_if) blast
  then obtain r where r: "filterNodes entries criteria = Inr r"
    by (auto simp: filterNodes_def)
  with filterNodes_own_entries [OF assms(1), of criteria r]
  have "own r = filter (\<lambda>(k, node). k \<noteq> ''__proto__''
      \<and> (\<forall>c\<in>set criteria. enabled c \<longrightarrow> applyCriterion node c = Inr True)) entries"
    by simp
  also have "\<dots> = entries"
    using assms(2,3) by (intro filter_True) force
  finally show ?thesis using r by simp
qed

lemma filterNodes_example:
  "filterNodes ex_nodes [ex_no_authors, ex_years_off]
     = Inr \<lparr>proto = None, own = [(''A'', ex_A), (''C'', ex_C)]\<rparr>
   \<and> filterNodes ex_nodes [ex_years_off] = Inr \<lparr>proto = None, own = ex_nodes\<rparr>"
  by (simp add: ex_node_defs ex_filter_defs filterNodes_def assign_def applyCriterion_def
      types_lookup_def)

text \<open>
  C8. A node without a publication year fails every enabled criterion of type
  \<^verbatim>\<open>publicationYear\<close>, whatever the mode and the bounds of its config:
  \<^verbatim>\<open>applyCriterion\<close> returns \<^verbatim>\<open>false\<close>, it does not pass the node by default.
\<close>

theorem applyCriterion_year_missing:
  assumes "publicationYear node = None"
    and "enabled criterion"
    and "FilterCriteria.type criterion = T_publicationYear"
  shows "applyCriterion node criterion = Inr False"
  using assms by (simp add: applyCriterion_def)

theorem applyCriterion_year_missing_witness:
  "publicationYear ex_B = None \<and> enabled ex_years_on
   \<and> FilterCriteria.type ex_years_on = T_publicationYear
   \<and> applyCriterion ex_B ex_years_on = Inr False"
  using applyCriterion_year_missing [of ex_B ex_years_on]
  by (simp add: ex_B_def ex_years_on_def)


section \<open>Properties of the layout engine\<close>

lemma dragged_all_last:
  "moves \<noteq> [] \<Longrightarrow>
     fx (snd (dragged_all (engine, node) moves)) = Some (DragEvent.x (last moves))
     \<and> fy (snd (dragged_all (engine, node) moves)) = Some (DragEvent.y (last moves))"
proof (induction moves arbitrary: engine node)
  case Nil
  then show ?case by simp
next
  case (Cons event events)
  show ?case
  proof (cases "events = []")
    case True
    then show ?thesis by (simp add: dragged_def)
  next
    case False
    with Cons.IH [of engine "node\<lparr>fx := Some (DragEvent.x event), fy := Some (DragEvent.y event)\<rparr>"]
    show ?thesis by (simp add: dragged_def)
  qed
qed

lemma dragEnded_keeps_node: "snd (dragEnded engine node event) = node"
  by (simp add: dragEnded_def split: option.splits)

text \<open>
  C6. After a gesture \<^verbatim>\<open>dragStarted\<close>, one or more \<^verbatim>\<open>dragged\<close>, \<^verbatim>\<open>dragEnded\<close> on
  a node, the node's \<^verbatim>\<open>fx\<close> and \<^verbatim>\<open>fy\<close> are the coordinates of the last
  \<^verbatim>\<open>dragged\<close> event and are not null: \<^verbatim>\<open>dragEnded\<close> does not release the pin. This
  holds with and without a simulation attached to the engine.
\<close>

theorem drag_gesture_pin_persists:
  assumes "moves \<noteq> []"
  shows "fx (snd (drag_gesture engine node started moves ended)) = Some (DragEvent.x (last moves))
       \<and> fy (snd (drag_gesture engine node started moves ended)) = Some (DragEvent.y (last moves))
       \<and> fx (snd (drag_gesture engine node started moves ended)) \<noteq> None
       \<and> fy (snd (drag_gesture engine node started moves ended)) \<noteq> None"
proof -
  obtain engine0 node0 where started: "dragStarted engine node started = (engine0, node0)"
    by (cases "dragStarted engine node started")
  obtain engine1 node1 where moved: "dragged_all (engine0, node0) moves = (engine1, node1)"
    by (cases "dragged_all (engine0, node0) moves")
  have "snd (drag_gesture engine node started moves ended) = node1"
    by (simp add: drag_gesture_def started moved dragEnded_keeps_node)
  moreover have "fx node1 = Some (DragEvent.x (last moves)) \<and> fy node1 = Some (DragEvent.y (last moves))"
    using dragged_all_last [OF assms, of engine0 node0] moved by simp
  ultimately show ?thesis by simp
qed

theorem drag_gesture_pin_persists_witness:
  "[ex_event 300 200, ex_event 310 240] \<noteq> []
   \<and> fx (snd (drag_gesture ex_engine ex_edge_node (ex_event 0 120)
                 [ex_event 300 200, ex_event 310 240] (ex_event 310 240))) = Some 310
   \<and> fy (snd (drag_gesture ex_engine ex_edge_node (ex_event 0 120)
                 [ex_event 300 200, ex_event 310 240] (ex_event 310 240))) = Some 240"
  using drag_gesture_pin_persists
    [of "[ex_event 300 200, ex_event 310 240]" ex_engine ex_edge_node "ex_event 0 120"
        "ex_event 310 240"]
  by (simp add: ex_event_def)

lemma findNodeAt_find: "findNodeAt engine px py ns = List.find (hit engine px py) ns"
  by (induction ns) (auto simp: hit_def Let_def split: option.splits)

text \<open>
  C5 fails on the code. A positioned node whose \<open>x\<close> (or \<open>y\<close>) is \<open>0\<close> is skipped
  by the truthiness guard: the book placed at \<open>(0, 120)\<close> has a position, the point
  \<open>(0, 120)\<close> is at distance \<open>0\<close> from it, within its radius, and \<^verbatim>\<open>findNodeAt\<close>
  returns \<^verbatim>\<open>null\<close>.
\<close>

theorem findNodeAt_skips_zero_coordinate:
  "GraphNode.x ex_edge_node = Some 0 \<and> GraphNode.y ex_edge_node = Some 120
   \<and> sqrt ((0 - 0) * (0 - 0) + (120 - 120) * (120 - 120)) \<le> getNodeRadius ex_engine ex_edge_node
   \<and> findNodeAt ex_engine 0 120 [ex_edge_node] = None"
  by (simp add: ex_edge_node_def ex_engine_def default_config_def getNodeRadius_def)

section \<open>Properties of the edge statistics\<close>

lemma increment_sum: "sum_list (map snd (increment m k)) = sum_list (map snd m) + 1"
  unfolding increment_def by (induction m) auto

lemma increment_keys: "fst ` set (increment m k) = insert k (fst ` set m)"
  by (simp add: increment_def dom_update)

lemma increment_distinct: "distinct (map fst m) \<Longrightarrow> distinct (map fst (increment m k))"
  by (simp add: increment_def distinct_update)

lemma count_fold:
  "sum_list (map snd (foldl (\<lambda>m edge. increment (increment m (source edge)) (target edge)) m0 es))
      = sum_list (map snd m0) + 2 * length es
   \<and> fst ` set (foldl (\<lambda>m edge. increment (increment m (source edge)) (target edge)) m0 es)
      = fst ` set m0 \<union> endpoints es
   \<and> (distinct (map fst m0) \<longrightarrow>
        distinct (map fst (foldl (\<lambda>m edge. increment (increment m (source edge)) (target edge)) m0 es)))"
proof (induction es arbitrary: m0)
  case Nil
  show ?case by (simp add: endpoints_def)
next
  case (Cons e es)
  show ?case
    using Cons.IH [of "increment (increment m0 (source e)) (target e)"]
    by (auto simp: increment_sum increment_keys increment_distinct endpoints_def)
qed

lemma connectionCount_sum: "sum_list (map snd (connectionCount es)) = 2 * length es"
  using count_fold [of "[]" es] by (simp add: connectionCount_def)

lemma connectionCount_keys: "fst ` set (connectionCount es) = endpoints es"
  using count_fold [of "[]" es] by (simp add: connectionCount_def)

lemma connectionCount_distinct: "distinct (map fst (connectionCount es))"
  using count_fold [of "[]" es] by (simp add: connectionCount_def)

lemma connectionCount_length: "length (connectionCount es) = card (endpoints es)"
proof -
  have "card (endpoints es) = card (set (map fst (connectionCount es)))"
    by (simp add: connectionCount_keys)
  also have "\<dots> = length (map fst (connectionCount es))"
    by (rule distinct_card) (rule connectionCount_distinct)
  finally show ?thesis by simp
qed

lemma endpoints_nonempty: "es \<noteq> [] \<Longrightarrow> 0 < card (endpoints es)"
  by (cases es) (auto simp: endpoints_def card_gt_0_iff)

text \<open>
  C7, as the code has it. \<^verbatim>\<open>averageConnections\<close> is the number of connection
  increments (two per edge) divided by the number of distinct ids that occur as an
  endpoint, rounded to one decimal by \<^verbatim>\<open>Math.round(avg * 10) / 10\<close>; it is \<open>0\<close>
  when there is no edge. Nodes without a connection have no counter and are not in the
  denominator.
\<close>

theorem averageConnections_rounded:
  "averageConnections (calculateEdgeStats ns es) =
     (if es = [] then Num 0
      else Num (of_int \<lfloor>real (2 * length es) / real (card (endpoints es)) * 10 + 1 / 2\<rfloor> / 10))"
proof (cases "es = []")
  case True
  then show ?thesis by (simp add: calculateEdgeStats_def connectionCount_def Let_def)
next
  case False
  then have pos: "0 < card (endpoints es)" by (rule endpoints_nonempty)
  then have "connectionCount es \<noteq> []"
    using connectionCount_length [of es] by auto
  with False pos show ?thesis
    by (simp add: calculateEdgeStats_def Let_def connectionCount_sum connectionCount_length)
qed


theorem averageConnections_rounded_witness:
  "averageConnections (calculateEdgeStats ex_nodes [ex_AB, ex_AC]) = Num (13 / 10)
   \<and> averageConnections (calculateEdgeStats ex_nodes []) = Num 0"
  using averageConnections_rounded [of ex_nodes "[ex_AB, ex_AC]"]
    averageConnections_rounded [of ex_nodes "[]"]
  by (simp add: endpoints_def ex_edge_defs)

text \<open>
  C7 as stated fails: with the edges \<open>A-B\<close> and \<open>A-C\<close> there are four increments
  over three distinct endpoints, and the reported average is \<open>1.3\<close>, not \<open>4 / 3\<close>.
\<close>

theorem averageConnections_not_exact_ratio:
  "sum_list (map snd (connectionCount [ex_AB, ex_AC])) = 4
   \<and> card (endpoints [ex_AB, ex_AC]) = 3
   \<and> averageConnections (calculateEdgeStats ex_nodes [ex_AB, ex_AC]) = Num (13 / 10)
   \<and> averageConnections (calculateEdgeStats ex_nodes [ex_AB, ex_AC]) \<noteq> js_div (Num 4) (Num 3)"
  by (simp add: calculateEdgeStats_def connectionCount_def increment_def endpoints_def
      ex_edge_defs Let_def)

section \<open>Properties of the connectivity statistics\<close>

subsection \<open>The adjacency map\<close>

lemma add_neighbor_keys: "map fst (add_neighbor adj a b) = map fst adj"
proof (cases "map_of adj a")
  case None
  then show ?thesis by (simp add: add_neighbor_def)
next
  case (Some nbs)
  then have "a \<in> fst ` set adj" by (auto dest: map_of_SomeD intro: rev_image_eqI)
  with Some show ?thesis by (simp add: add_neighbor_def update_keys)
qed

lemma neighbors_of_add_neighbor:
  "set (neighbors_of (add_neighbor adj a b) c) =
     (if c = a \<and> a \<in> fst ` set adj then insert b (set (neighbors_of adj c))
      else set (neighbors_of adj c))"
proof (cases "map_of adj a")
  case None
  then have "a \<notin> fst ` set adj" by (simp add: map_of_eq_None_iff)
  with None show ?thesis by (simp add: add_neighbor_def)
next
  case (Some nbs)
  then have "a \<in> fst ` set adj" by (auto dest: map_of_SomeD intro: rev_image_eqI)
  with Some show ?thesis
    by (auto simp: add_neighbor_def neighbors_of_def update_conv' Set_add_def)
qed

lemma add_edge_keys: "map fst (add_edge adj e) = map fst adj"
  by (simp add: add_edge_def add_neighbor_keys)

lemma fold_add_edge_keys: "map fst (foldl add_edge adj es) = map fst adj"
  by (induction es arbitrary: adj) (simp_all add: add_edge_keys)

lemma neighbors_of_add_edge:
  "set (neighbors_of (add_edge adj e) c) =
     (if c \<in> fst ` set adj
      then set (neighbors_of adj c)
             \<union> (if source e = c then {target e} else {})
             \<union> (if target e = c then {source e} else {})
      else set (neighbors_of adj c))"
proof -
  have keys: "fst ` set (add_neighbor adj (source e) (target e)) = fst ` set adj"
    using add_neighbor_keys [of adj "source e" "target e"]
    by (metis set_map)
  show ?thesis
    unfolding add_edge_def neighbors_of_add_neighbor keys by auto
qed

lemma neighbors_of_fold_add_edge:
  "set (neighbors_of (foldl add_edge adj es) c) =
     (if c \<in> fst ` set adj
      then set (neighbors_of adj c)
             \<union> {target e | e. e \<in> set es \<and> source e = c}
             \<union> {source e | e. e \<in> set es \<and> target e = c}
      else set (neighbors_of adj c))"
proof (induction es arbitrary: adj)
  case Nil
  show ?case by simp
next
  case (Cons e es)
  have keys: "fst ` set (add_edge adj e) = fst ` set adj"
    using add_edge_keys [of adj e] by (metis set_map)
  show ?case
    unfolding foldl_Cons Cons.IH keys neighbors_of_add_edge by auto
qed

lemma init_adjacency:
  "distinct ks \<Longrightarrow> set ks \<inter> fst ` set adj = {} \<Longrightarrow>
     foldl (\<lambda>adjacency k. AList.update k [] adjacency) adj ks = adj @ map (\<lambda>k. (k, [])) ks"
proof (induction ks arbitrary: adj)
  case Nil
  show ?case by simp
next
  case (Cons k ks)
  from Cons.prems have "k \<notin> fst ` set adj" by auto
  then have upd: "AList.update k [] adj = adj @ [(k, [])]" by (rule update_new_key)
  from Cons.prems have "set ks \<inter> fst ` set (adj @ [(k, [])]) = {}" by auto
  moreover from Cons.prems have "distinct ks" by simp
  ultimately show ?case using Cons.IH [of "adj @ [(k, [])]"] upd by simp
qed

lemma init_adjacency_keys:
  "fst ` set (foldl (\<lambda>adjacency k. AList.update k [] adjacency) adj ks) = fst ` set adj \<union> set ks"
  by (induction ks arbitrary: adj) (auto simp: dom_update)

lemma init_adjacency_neighbors:
  "set (neighbors_of (foldl (\<lambda>adjacency k. AList.update k [] adjacency) adj ks) c)
     \<subseteq> set (neighbors_of adj c)"
proof (induction ks arbitrary: adj)
  case Nil
  show ?case by simp
next
  case (Cons k ks)
  have "set (neighbors_of (AList.update k [] adj) c) \<subseteq> set (neighbors_of adj c)"
    by (simp add: neighbors_of_def update_conv')
  with Cons.IH [of "AList.update k [] adj"] show ?case by auto
qed

lemma buildAdjacency_keys_set: "fst ` set (buildAdjacency ns es) = set (Object_keys ns)"
proof -
  let ?init = "foldl (\<lambda>adjacency k. AList.update k [] adjacency) ([] :: Adjacency) (Object_keys ns)"
  have "map fst (buildAdjacency ns es) = map fst ?init"
    unfolding buildAdjacency_def by (rule fold_add_edge_keys)
  then have "set (map fst (buildAdjacency ns es)) = set (map fst ?init)" by simp
  then show ?thesis by (simp add: init_adjacency_keys)
qed

lemma buildAdjacency_keys:
  "distinct (Object_keys ns) \<Longrightarrow> map fst (buildAdjacency ns es) = Object_keys ns"
  unfolding buildAdjacency_def fold_add_edge_keys
  by (simp add: init_adjacency comp_def)

lemma buildAdjacency_neighbors:
  "set (neighbors_of (buildAdjacency ns es) c) =
     (if c \<in> set (Object_keys ns)
      then {target e | e. e \<in> set es \<and> source e = c} \<union> {source e | e. e \<in> set es \<and> target e = c}
      else {})"
proof -
  let ?init = "foldl (\<lambda>adjacency k. AList.update k [] adjacency) ([] :: Adjacency) (Object_keys ns)"
  have "set (neighbors_of ?init c) \<subseteq> set (neighbors_of [] c)"
    by (rule init_adjacency_neighbors)
  then have empty: "set (neighbors_of ?init c) = {}" by (simp add: neighbors_of_def)
  have keys: "fst ` set ?init = set (Object_keys ns)" by (simp add: init_adjacency_keys)
  show ?thesis
    unfolding buildAdjacency_def neighbors_of_fold_add_edge keys empty by simp
qed

subsection \<open>The traversal\<close>



lemma dfs_no_neighbors: "neighbors_of adj k = [] \<Longrightarrow> dfs adj vis k = insert k vis"
  by simp



subsection \<open>The launching loop\<close>




lemma launches_roots:
  "c \<in> set (launches adj vis ks) \<Longrightarrow> c \<noteq> [] \<and> hd c \<in> set ks"
  by (induction ks arbitrary: vis) (auto split: if_splits)






lemmas connectivity_eval = calculateConnectivityStats_def countClusters_def launch_def
  buildAdjacency_def add_edge_def add_neighbor_def neighbors_of_def Set_add_def Object_keys_def
  linked_def Let_def



subsection \<open>The traversal on a bounded stack\<close>

lemma dfs_on_stack_result:
  "dfs_on_stack f adj vis k = Inr r \<Longrightarrow> r = dfs adj vis k"
  "dfs_forEach_on_stack f adj vis ks = Inr r \<Longrightarrow> r = dfs_forEach adj vis ks"
proof (induct f adj vis k and f adj vis ks arbitrary: r and r
    rule: dfs_on_stack_dfs_forEach_on_stack.induct)
  case (1 f adj vis k)
  then show ?case by (auto split: if_splits)
next
  case (2 f adj vis)
  then show ?case by simp
next
  case (3 f adj vis nb ks)
  show ?case
  proof (cases "nb \<in> vis")
    case True
    with 3 show ?thesis by simp
  next
    case False
    with 3(4) obtain vis' where first: "dfs_on_stack f adj vis nb = Inr vis'"
      and later: "dfs_forEach_on_stack f adj vis' ks = Inr r"
      by (auto split: sum.splits)
    from 3(1) [OF False first] have "vis' = dfs adj vis nb" .
    moreover from 3(2) [OF False first later] have "r = dfs_forEach adj vis' ks" .
    ultimately show ?thesis using False by simp
  qed
qed

lemma dfs_on_stack_enough:
  "card (all_neighbors adj - insert k vis) < f \<Longrightarrow> dfs_on_stack f adj vis k = Inr (dfs adj vis k)"
  "set ks \<subseteq> all_neighbors adj \<union> vis \<Longrightarrow> card (all_neighbors adj - vis) \<le> f \<Longrightarrow>
     dfs_forEach_on_stack f adj vis ks = Inr (dfs_forEach adj vis ks)"
proof (induct f adj vis k and f adj vis ks rule: dfs_on_stack_dfs_forEach_on_stack.induct)
  case (1 f adj vis k)
  from 1(2) have pos: "f \<noteq> 0" by simp
  have "set (neighbors_of adj k) \<subseteq> all_neighbors adj \<union> insert k vis"
    using neighbors_of_subset [of adj k] by auto
  moreover from 1(2) have "card (all_neighbors adj - insert k vis) \<le> f - 1" by simp
  ultimately have "dfs_forEach_on_stack (f - 1) adj (insert k vis) (neighbors_of adj k)
      = Inr (dfs_forEach adj (insert k vis) (neighbors_of adj k))"
    using 1(1) [OF pos] by blast
  with pos show ?case by simp
next
  case (2 f adj vis)
  show ?case by simp
next
  case (3 f adj vis nb ks)
  show ?case
  proof (cases "nb \<in> vis")
    case True
    with 3 show ?thesis by simp
  next
    case False
    with 3(4) have member: "nb \<in> all_neighbors adj - vis" by auto
    have "all_neighbors adj - insert nb vis = (all_neighbors adj - vis) - {nb}" by auto
    then have "card (all_neighbors adj - insert nb vis) = card (all_neighbors adj - vis) - 1"
      using member by (simp add: finite_all_neighbors)
    moreover have "0 < card (all_neighbors adj - vis)"
      using member finite_all_neighbors [of adj] by (auto simp: card_gt_0_iff)
    ultimately have "card (all_neighbors adj - insert nb vis) < f" using 3(5) by simp
    from 3(1) [OF False this] have first: "dfs_on_stack f adj vis nb = Inr (dfs adj vis nb)" .
    have grows: "vis \<subseteq> dfs adj vis nb" by (rule dfs_grows)
    then have "all_neighbors adj - dfs adj vis nb \<subseteq> all_neighbors adj - vis" by auto
    then have "card (all_neighbors adj - dfs adj vis nb) \<le> card (all_neighbors adj - vis)"
      by (intro card_mono) (simp_all add: finite_all_neighbors)
    with 3(5) have "card (all_neighbors adj - dfs adj vis nb) \<le> f" by simp
    moreover from 3(4) grows have "set ks \<subseteq> all_neighbors adj \<union> dfs adj vis nb" by auto
    ultimately have "dfs_forEach_on_stack f adj (dfs adj vis nb) ks
        = Inr (dfs_forEach adj (dfs adj vis nb) ks)"
      using 3(2) [OF False first] by blast
    with False first show ?thesis by simp
  qed
qed

lemma countClusters_on_stack_result:
  "countClusters_on_stack f adj (vis, c) ks = Inr r \<Longrightarrow> r = foldl (launch adj) (vis, c) ks"
proof (induction ks arbitrary: vis c)
  case Nil
  then show ?case by simp
next
  case (Cons k ks)
  show ?case
  proof (cases "k \<in> vis")
    case True
    with Cons show ?thesis by (simp add: launch_def)
  next
    case False
    with Cons.prems obtain vis' where first: "dfs_on_stack f adj vis k = Inr vis'"
      and later: "countClusters_on_stack f adj (vis', c + 1) ks = Inr r"
      by (auto split: sum.splits)
    from first have "vis' = dfs adj vis k" by (rule dfs_on_stack_result)
    with Cons.IH [OF later] False show ?thesis by (simp add: launch_def)
  qed
qed

lemma countClusters_on_stack_enough:
  assumes "card (all_neighbors adj) < f"
  shows "countClusters_on_stack f adj (vis, c) ks = Inr (foldl (launch adj) (vis, c) ks)"
proof (induction ks arbitrary: vis c)
  case Nil
  show ?case by simp
next
  case (Cons k ks)
  have "card (all_neighbors adj - insert k vis) \<le> card (all_neighbors adj)"
    by (intro card_mono) (auto simp: finite_all_neighbors)
  with assms have "dfs_on_stack f adj vis k = Inr (dfs adj vis k)"
    by (intro dfs_on_stack_enough) simp
  then show ?case using Cons.IH by (simp add: launch_def)
qed

lemma dfs_on_stack_error:
  "dfs_on_stack f adj vis k \<noteq> Inl TypeError"
  "dfs_forEach_on_stack f adj vis ks \<noteq> Inl TypeError"
  by (induct f adj vis k and f adj vis ks rule: dfs_on_stack_dfs_forEach_on_stack.induct)
    (auto split: sum.splits)

lemma countClusters_on_stack_error:
  "countClusters_on_stack f adj (vis, c) ks \<noteq> Inl TypeError"
  by (induction ks arbitrary: vis c) (auto split: sum.splits simp: dfs_on_stack_error)



lemma init_adjacency_distinct:
  "distinct (map fst adj) \<Longrightarrow>
     distinct (map fst (foldl (\<lambda>adjacency k. AList.update k [] adjacency) adj ks))"
  by (induction ks arbitrary: adj) (simp_all add: distinct_update)

lemma buildAdjacency_distinct: "distinct (map fst (buildAdjacency ns es))"
  unfolding buildAdjacency_def fold_add_edge_keys
  by (rule init_adjacency_distinct) simp

lemma all_neighbors_endpoints: "all_neighbors (buildAdjacency ns es) \<subseteq> endpoints es"
proof
  fix v assume "v \<in> all_neighbors (buildAdjacency ns es)"
  then obtain k nbs where entry: "(k, nbs) \<in> set (buildAdjacency ns es)" and v: "v \<in> set nbs"
    by (auto simp: all_neighbors_def)
  from entry have "map_of (buildAdjacency ns es) k = Some nbs"
    using buildAdjacency_distinct [of ns es] by simp
  then have "neighbors_of (buildAdjacency ns es) k = nbs" by (simp add: neighbors_of_def)
  with v have "v \<in> set (neighbors_of (buildAdjacency ns es) k)" by simp
  then show "v \<in> endpoints es"
    unfolding buildAdjacency_neighbors by (auto simp: endpoints_def split: if_splits)
qed

lemma finite_endpoints: "finite (endpoints es)"
  by (simp add: endpoints_def)

lemma stack_suffices:
  assumes "card (endpoints es) < maxCallDepth limits"
  shows "calculateConnectivityStats_on_stack limits ns es = Inr (calculateConnectivityStats ns es)"
proof -
  let ?adj = "buildAdjacency ns es"
  have "card (all_neighbors ?adj) \<le> card (endpoints es)"
    by (intro card_mono finite_endpoints all_neighbors_endpoints)
  with assms have "card (all_neighbors ?adj) < maxCallDepth limits" by simp
  then have "countClusters_on_stack (maxCallDepth limits) ?adj ({}, 0) (Object_keys ns)
      = Inr (countClusters ?adj (Object_keys ns))"
    unfolding countClusters_def by (rule countClusters_on_stack_enough)
  then show ?thesis
    by (simp add: calculateConnectivityStats_on_stack_def calculateConnectivityStats_def Let_def
        split: prod.splits)
qed

lemma connectivity_on_stack_result:
  assumes "calculateConnectivityStats_on_stack limits ns es = Inr stats"
  shows "stats = calculateConnectivityStats ns es"
proof -
  from assms obtain vis c where
    run: "countClusters_on_stack (maxCallDepth limits) (buildAdjacency ns es) ({}, 0) (Object_keys ns)
      = Inr (vis, c)"
    and stats: "stats = (calculateConnectivityStats ns es)\<lparr>clusters := c\<rparr>"
    by (auto simp: calculateConnectivityStats_on_stack_def split: sum.splits)
  from run have "(vis, c) = countClusters (buildAdjacency ns es) (Object_keys ns)"
    unfolding countClusters_def by (rule countClusters_on_stack_result)
  then have "c = clusters (calculateConnectivityStats ns es)"
    by (simp add: calculateConnectivityStats_def Let_def) (metis snd_conv)
  with stats show ?thesis by simp
qed

lemma connectivity_on_stack_error:
  "calculateConnectivityStats_on_stack limits ns es \<noteq> Inl TypeError"
  using countClusters_on_stack_error [of "maxCallDepth limits" "buildAdjacency ns es" "{}" 0 "Object_keys ns"]
  by (auto simp: calculateConnectivityStats_on_stack_def split: sum.splits)

lemma temporal_returns:
  "length (years_of ns) \<le> maxArguments limits \<Longrightarrow> \<exists>stats. calculateTemporalStats limits ns = Inr stats"
  by (auto simp: calculateTemporalStats_def Let_def split: list.splits)

lemma temporal_error: "calculateTemporalStats limits ns \<noteq> Inl TypeError"
  by (auto simp: calculateTemporalStats_def Let_def split: list.splits)

lemma temporal_raises:
  "years_of ns \<noteq> [] \<Longrightarrow> maxArguments limits < length (years_of ns) \<Longrightarrow>
     calculateTemporalStats limits ns = Inl RangeError"
  by (auto simp: calculateTemporalStats_def split: list.splits)

lemma graphStats_returns:
  assumes "card (endpoints es) < maxCallDepth limits"
    and "length (years_of (Object_values ns)) \<le> maxArguments limits"
  shows "\<exists>stats. calculateGraphStats limits ns es = Inr stats"
  using stack_suffices [OF assms(1), of ns] temporal_returns [OF assms(2)]
  by (auto simp: calculateGraphStats_def Let_def)

lemma graphStats_error: "calculateGraphStats limits ns es \<noteq> Inl TypeError"
  using connectivity_on_stack_error [of limits ns es] temporal_error [of limits "Object_values ns"]
  by (auto simp: calculateGraphStats_def Let_def split: sum.splits)

lemma graphStats_parts:
  assumes "calculateGraphStats limits ns es = Inr stats"
  shows "nodes stats = calculateNodeStats (Object_values ns)"
    and "edges stats = calculateEdgeStats ns es"
    and "connectivity stats = calculateConnectivityStats ns es"
    and "content stats = calculateContentStats (Object_values ns) es"
    and "calculateTemporalStats limits (Object_values ns) = Inr (temporal stats)"
proof -
  from assms obtain cs ts where
    cs: "calculateConnectivityStats_on_stack limits ns es = Inr cs"
    and ts: "calculateTemporalStats limits (Object_values ns) = Inr ts"
    and stats: "stats = \<lparr>nodes = calculateNodeStats (Object_values ns),
        edges = calculateEdgeStats ns es, connectivity = cs,
        content = calculateContentStats (Object_values ns) es, temporal = ts\<rparr>"
    by (auto simp: calculateGraphStats_def Let_def split: sum.splits)
  from cs have "cs = calculateConnectivityStats ns es" by (rule connectivity_on_stack_result)
  with stats ts show "nodes stats = calculateNodeStats (Object_values ns)"
    and "edges stats = calculateEdgeStats ns es"
    and "connectivity stats = calculateConnectivityStats ns es"
    and "content stats = calculateContentStats (Object_values ns) es"
    and "calculateTemporalStats limits (Object_values ns) = Inr (temporal stats)"
    by simp_all
qed


subsection \<open>Snapshots that exhaust the limits\<close>

lemma forEach_raises:
  assumes "nb \<in> set ks" and "nb \<notin> vis"
    and "dfs_on_stack f adj vis nb = Inl RangeError"
    and "\<forall>k\<in>set ks. k \<noteq> nb \<longrightarrow> k \<in> vis"
  shows "dfs_forEach_on_stack f adj vis ks = Inl RangeError"
  using assms(1,4)
proof (induction ks)
  case Nil
  then show ?case by simp
next
  case (Cons k ks)
  show ?case
  proof (cases "k = nb")
    case True
    with assms(2,3) show ?thesis by simp
  next
    case False
    with Cons.prems have "k \<in> vis" and "nb \<in> set ks" and "\<forall>k\<in>set ks. k \<noteq> nb \<longrightarrow> k \<in> vis"
      by auto
    with Cons.IH show ?thesis by simp
  qed
qed

lemma path_keys: "Object_keys (path_nodes n) = map show_nat [0..<n]"
  by (simp add: Object_keys_def path_nodes_def comp_def)

lemma path_neighbors:
  assumes "i < n"
  shows "set (neighbors_of (buildAdjacency (path_nodes n) (path_edges n)) (show_nat i)) =
     (if Suc i < n then {show_nat (Suc i)} else {}) \<union> (if 0 < i then {show_nat (i - 1)} else {})"
proof -
  have key: "show_nat i \<in> set (Object_keys (path_nodes n))"
    using assms by (simp add: path_keys)
  have "{target e | e. e \<in> set (path_edges n) \<and> source e = show_nat i}
      = {show_nat (Suc j) | j. j < n - 1 \<and> j = i}"
    by (force simp: path_edges_def show_nat_inj)
  then have out: "{target e | e. e \<in> set (path_edges n) \<and> source e = show_nat i}
      = (if Suc i < n then {show_nat (Suc i)} else {})"
    by auto
  have "{source e | e. e \<in> set (path_edges n) \<and> target e = show_nat i}
      = {show_nat j | j. j < n - 1 \<and> Suc j = i}"
    by (force simp: path_edges_def show_nat_inj)
  also have "\<dots> = (if 0 < i then {show_nat (i - 1)} else {})"
    using assms by (cases i) auto
  finally have into: "{source e | e. e \<in> set (path_edges n) \<and> target e = show_nat i}
      = (if 0 < i then {show_nat (i - 1)} else {})" .
  show ?thesis
    unfolding buildAdjacency_neighbors using key out into by simp
qed

lemma path_dfs_raises:
  "f + i < n \<Longrightarrow>
     dfs_on_stack f (buildAdjacency (path_nodes n) (path_edges n)) (show_nat ` {..<i}) (show_nat i)
       = Inl RangeError"
proof (induction f arbitrary: i)
  case 0
  show ?case by simp
next
  case (Suc f)
  let ?adj = "buildAdjacency (path_nodes n) (path_edges n)"
  let ?vis = "insert (show_nat i) (show_nat ` {..<i})"
  from Suc.prems have i: "i < n" and next_i: "Suc i < n" by simp_all
  have nbs: "set (neighbors_of ?adj (show_nat i)) =
      {show_nat (Suc i)} \<union> (if 0 < i then {show_nat (i - 1)} else {})"
    using path_neighbors [OF i] next_i by simp
  have "dfs_forEach_on_stack f ?adj ?vis (neighbors_of ?adj (show_nat i)) = Inl RangeError"
  proof (rule forEach_raises)
    show "show_nat (Suc i) \<in> set (neighbors_of ?adj (show_nat i))" using nbs by simp
    show "show_nat (Suc i) \<notin> ?vis" by (auto simp: show_nat_inj)
    have "dfs_on_stack f ?adj (show_nat ` {..<Suc i}) (show_nat (Suc i)) = Inl RangeError"
      using Suc.prems by (intro Suc.IH) simp
    then show "dfs_on_stack f ?adj ?vis (show_nat (Suc i)) = Inl RangeError"
      by (simp add: lessThan_Suc)
    show "\<forall>k\<in>set (neighbors_of ?adj (show_nat i)). k \<noteq> show_nat (Suc i) \<longrightarrow> k \<in> ?vis"
      unfolding nbs by (auto split: if_splits)
  qed
  then show ?case by simp
qed

lemma deep_path_raises:
  "calculateGraphStats limits (path_nodes (maxCallDepth limits + 1)) (path_edges (maxCallDepth limits + 1))
     = Inl RangeError"
proof -
  let ?n = "maxCallDepth limits + 1"
  let ?adj = "buildAdjacency (path_nodes ?n) (path_edges ?n)"
  have "dfs_on_stack (maxCallDepth limits) ?adj (show_nat ` {..<0}) (show_nat 0) = Inl RangeError"
    by (rule path_dfs_raises) simp
  then have "dfs_on_stack (maxCallDepth limits) ?adj {} (show_nat 0) = Inl RangeError" by simp
  moreover have "[0..<?n] = 0 # [1..<?n]" by (simp add: upt_conv_Cons)
  then have "Object_keys (path_nodes ?n) = show_nat 0 # map show_nat [1..<?n]"
    by (simp only: path_keys list.map)
  ultimately have "countClusters_on_stack (maxCallDepth limits) ?adj ({}, 0) (Object_keys (path_nodes ?n))
      = Inl RangeError"
    by simp
  then show ?thesis
    by (simp add: calculateGraphStats_def calculateConnectivityStats_on_stack_def)
qed

lemma path_years: "years_of (Object_values (path_nodes n)) = replicate n 2000"
  by (induction n)
    (simp_all add: years_of_def Object_values_def path_nodes_def path_node_def truthy_num_def
      replicate_append_same)

lemma many_years_raise:
  assumes "0 < maxCallDepth limits"
  shows "calculateGraphStats limits (path_nodes (maxArguments limits + 1)) [] = Inl RangeError"
proof -
  let ?ns = "path_nodes (maxArguments limits + 1)"
  have "card (endpoints []) < maxCallDepth limits" using assms by (simp add: endpoints_def)
  then have "calculateConnectivityStats_on_stack limits ?ns [] = Inr (calculateConnectivityStats ?ns [])"
    by (rule stack_suffices)
  moreover have "calculateTemporalStats limits (Object_values ?ns) = Inl RangeError"
    by (rule temporal_raises) (simp_all add: path_years)
  ultimately show ?thesis by (simp add: calculateGraphStats_def)
qed

subsection \<open>Edges with a missing endpoint\<close>

lemma update_entries:
  "entry \<in> set (AList.update k v al) \<Longrightarrow> entry = (k, v) \<or> entry \<in> set al"
  by (induction al) (auto split: if_splits)

lemma nodeConnections_set:
  "set (nodeConnections ns es) =
     (\<lambda>(k, c). \<lparr>nodeId = k, label = label_or_id ns k, connections = c\<rparr>) ` set (connectionCount es)"
  by (simp add: nodeConnections_def sort_desc_def)

lemma nodeConnections_length: "length (nodeConnections ns es) = card (endpoints es)"
  by (simp add: nodeConnections_def sort_desc_def connectionCount_length)

lemma label_or_id_missing:
  assumes "k \<notin> set (Object_keys ns)"
  shows "label_or_id ns k = k"
proof -
  from assms have "map_of ns k = None"
    by (simp add: Object_keys_def map_of_eq_None_iff)
  then show ?thesis by (simp add: label_or_id_def)
qed

text \<open>The counter of an id is the number of edge ends that name it.\<close>

lemma increment_counter:
  "(case map_of (increment m k) j of None \<Rightarrow> 0 | Some c \<Rightarrow> c)
     = (case map_of m j of None \<Rightarrow> 0 | Some c \<Rightarrow> c) + (if j = k then 1 else 0)"
  by (simp add: increment_def update_conv')

lemma count_fold_counter:
  "(case map_of (foldl (\<lambda>m edge. increment (increment m (source edge)) (target edge)) m0 es) j
      of None \<Rightarrow> 0 | Some c \<Rightarrow> c)
     = (case map_of m0 j of None \<Rightarrow> 0 | Some c \<Rightarrow> c)
       + length (filter (\<lambda>edge. source edge = j) es) + length (filter (\<lambda>edge. target edge = j) es)"
proof (induction es arbitrary: m0)
  case Nil
  show ?case by simp
next
  case (Cons e es)
  show ?case
    by (simp add: Cons.IH increment_counter)
qed

lemma connectionCount_counter:
  assumes "j \<in> endpoints es"
  shows "(j, length (filter (\<lambda>edge. source edge = j) es) + length (filter (\<lambda>edge. target edge = j) es))
           \<in> set (connectionCount es)"
proof -
  from assms obtain c where c: "(j, c) \<in> set (connectionCount es)"
    unfolding connectionCount_keys [symmetric] by auto
  then have "map_of (connectionCount es) j = Some c"
    using connectionCount_distinct [of es] by simp
  with count_fold_counter [of "[]" es j] have
    "c = length (filter (\<lambda>edge. source edge = j) es) + length (filter (\<lambda>edge. target edge = j) es)"
    by (simp add: connectionCount_def)
  with c show ?thesis by simp
qed

lemma averageConnections_nonempty:
  assumes "es \<noteq> []"
  shows "averageConnections (calculateEdgeStats ns es) =
     Num (of_int \<lfloor>real (2 * length es) / real (card (endpoints es)) * 10 + 1 / 2\<rfloor> / 10)"
proof -
  from assms have pos: "0 < card (endpoints es)" by (rule endpoints_nonempty)
  then have "connectionCount es \<noteq> []"
    using connectionCount_length [of es] by auto
  with pos show ?thesis
    by (simp add: calculateEdgeStats_def Let_def connectionCount_sum connectionCount_length)
qed

lemma ranked_slices:
  "mostConnected (calculateEdgeStats ns es) = take 5 (nodeConnections ns es)"
  "leastConnected (calculateEdgeStats ns es)
     = rev (drop (length (nodeConnections ns es) - 5) (nodeConnections ns es))"
  by (simp_all add: calculateEdgeStats_def Let_def)

lemma take_drop_cover:
  assumes "entry \<in> set xs" and "length xs \<le> 2 * n"
  shows "entry \<in> set (take n xs) \<or> entry \<in> set (drop (length xs - n) xs)"
proof -
  from assms(1) obtain i where i: "i < length xs" "xs ! i = entry"
    by (auto simp: in_set_conv_nth)
  show ?thesis
  proof (cases "i < n")
    case True
    with i have "entry \<in> set (take n xs)" by (auto simp: in_set_conv_nth)
    then show ?thesis ..
  next
    case False
    with i assms(2) have "length xs - n \<le> i" by simp
    with i have "drop (length xs - n) xs ! (i - (length xs - n)) = entry"
      and "i - (length xs - n) < length (drop (length xs - n) xs)"
      by simp_all
    then have "entry \<in> set (drop (length xs - n) xs)"
      using nth_mem by blast
    then show ?thesis ..
  qed
qed

text \<open>
  C3, as the code has it. An edge whose endpoint \<open>m\<close> is not a key of the node record
  makes no branch of the analytics raise: the statistics never raise a TypeError, they
  are returned whenever the snapshot is within the engine's limits, and a \<open>dfs\<close>
  called on the missing id returns with only the id added. In the connectivity
  statistics the missing id has no entry in the adjacency map (so no neighbor set of
  its own enters \<^verbatim>\<open>totalDegree\<close> or \<^verbatim>\<open>isolatedNodes\<close>) and it is never the root of a
  launch, so it is not counted as a cluster; it is, however, added to the neighbor set
  of the other endpoint when that one is a key. In the edge statistics the missing id
  is counted like any other endpoint: its counter is the number of edge ends that name
  it, it is in the ranking under its own id as label, hence in \<^verbatim>\<open>mostConnected\<close> and
  \<^verbatim>\<open>leastConnected\<close> when at most five ids occur as endpoints and in one of the two
  when at most ten do, and it is one of the ids by whose number
  \<^verbatim>\<open>averageConnections\<close> divides.
\<close>

theorem dangling_edge_counted:
  assumes "e \<in> set es"
    and "m = source e \<or> m = target e"
    and "m \<notin> set (Object_keys ns)"
  shows "calculateGraphStats limits ns es \<noteq> Inl TypeError
       \<and> (card (endpoints es) < maxCallDepth limits
            \<and> length (years_of (Object_values ns)) \<le> maxArguments limits
            \<longrightarrow> (\<exists>stats. calculateGraphStats limits ns es = Inr stats))
       \<and> (calculateGraphStats limits ns es = Inr r
            \<longrightarrow> edges r = calculateEdgeStats ns es
              \<and> connectivity r = calculateConnectivityStats ns es)
       \<and> (0 < f \<longrightarrow> dfs_on_stack f (buildAdjacency ns es) vis m = Inr (insert m vis))
       \<and> m \<notin> fst ` set (buildAdjacency ns es)
       \<and> neighbors_of (buildAdjacency ns es) m = []
       \<and> dfs (buildAdjacency ns es) vis m = insert m vis
       \<and> (\<forall>c\<in>set (launches (buildAdjacency ns es) {} (Object_keys ns)). hd c \<noteq> m)
       \<and> (source e \<in> set (Object_keys ns)
            \<longrightarrow> target e \<in> set (neighbors_of (buildAdjacency ns es) (source e)))
       \<and> (target e \<in> set (Object_keys ns)
            \<longrightarrow> source e \<in> set (neighbors_of (buildAdjacency ns es) (target e)))
       \<and> 0 < length (filter (\<lambda>edge. source edge = m) es) + length (filter (\<lambda>edge. target edge = m) es)
       \<and> \<lparr>nodeId = m, label = m,
           connections = length (filter (\<lambda>edge. source edge = m) es)
                         + length (filter (\<lambda>edge. target edge = m) es)\<rparr>
            \<in> set (nodeConnections ns es)
       \<and> (card (endpoints es) \<le> 5 \<longrightarrow>
            \<lparr>nodeId = m, label = m,
              connections = length (filter (\<lambda>edge. source edge = m) es)
                            + length (filter (\<lambda>edge. target edge = m) es)\<rparr>
              \<in> set (mostConnected (calculateEdgeStats ns es))
                \<inter> set (leastConnected (calculateEdgeStats ns es)))
       \<and> (card (endpoints es) \<le> 10 \<longrightarrow>
            \<lparr>nodeId = m, label = m,
              connections = length (filter (\<lambda>edge. source edge = m) es)
                            + length (filter (\<lambda>edge. target edge = m) es)\<rparr>
              \<in> set (mostConnected (calculateEdgeStats ns es))
                \<union> set (leastConnected (calculateEdgeStats ns es)))
       \<and> m \<in> endpoints es
       \<and> averageConnections (calculateEdgeStats ns es) =
           Num (of_int \<lfloor>real (2 * length es) / real (card (endpoints es)) * 10 + 1 / 2\<rfloor> / 10)"
proof -
  let ?adj = "buildAdjacency ns es"
  let ?ends = "length (filter (\<lambda>edge. source edge = m) es)
      + length (filter (\<lambda>edge. target edge = m) es)"
  let ?entry = "\<lparr>nodeId = m, label = m, connections = ?ends\<rparr>"
  let ?ranked = "nodeConnections ns es"
  have no_type_error: "calculateGraphStats limits ns es \<noteq> Inl TypeError"
    by (rule graphStats_error)
  have returns: "\<exists>stats. calculateGraphStats limits ns es = Inr stats"
    if "card (endpoints es) < maxCallDepth limits
      \<and> length (years_of (Object_values ns)) \<le> maxArguments limits"
    using that graphStats_returns by blast
  have parts: "edges r = calculateEdgeStats ns es
      \<and> connectivity r = calculateConnectivityStats ns es"
    if "calculateGraphStats limits ns es = Inr r"
    using graphStats_parts(2,3) [OF that] by simp
  have no_key: "m \<notin> fst ` set ?adj"
    using assms(3) by (simp add: buildAdjacency_keys_set)
  have "set (neighbors_of ?adj m) = {}"
    unfolding buildAdjacency_neighbors using assms(3) by simp
  then have none: "neighbors_of ?adj m = []" by simp
  then have visit: "dfs ?adj vis m = insert m vis" by simp
  have on_stack: "dfs_on_stack f ?adj vis m = Inr (insert m vis)" if "0 < f"
    using that none by simp
  have roots: "\<forall>c\<in>set (launches ?adj {} (Object_keys ns)). hd c \<noteq> m"
  proof
    fix c assume "c \<in> set (launches ?adj {} (Object_keys ns))"
    then have "hd c \<in> set (Object_keys ns)" using launches_roots by blast
    with assms(3) show "hd c \<noteq> m" by auto
  qed
  have of_source: "target e \<in> set (neighbors_of ?adj (source e))"
    if "source e \<in> set (Object_keys ns)"
    unfolding buildAdjacency_neighbors using that assms(1) by auto
  have of_target: "source e \<in> set (neighbors_of ?adj (target e))"
    if "target e \<in> set (Object_keys ns)"
    unfolding buildAdjacency_neighbors using that assms(1) by auto
  from assms(1,2) have endpoint: "m \<in> endpoints es" by (auto simp: endpoints_def)
  from assms(1,2) have "filter (\<lambda>edge. source edge = m) es \<noteq> []
      \<or> filter (\<lambda>edge. target edge = m) es \<noteq> []"
    by (auto simp: filter_empty_conv)
  then have positive: "0 < ?ends" by auto
  have "(m, ?ends) \<in> set (connectionCount es)"
    using endpoint by (rule connectionCount_counter)
  then have "\<lparr>nodeId = m, label = label_or_id ns m, connections = ?ends\<rparr> \<in> set ?ranked"
    unfolding nodeConnections_set by force
  then have ranked: "?entry \<in> set ?ranked"
    using label_or_id_missing [OF assms(3)] by simp
  have both: "?entry \<in> set (mostConnected (calculateEdgeStats ns es))
      \<inter> set (leastConnected (calculateEdgeStats ns es))"
    if "card (endpoints es) \<le> 5"
    using that ranked by (simp add: ranked_slices nodeConnections_length)
  have one: "?entry \<in> set (mostConnected (calculateEdgeStats ns es))
      \<union> set (leastConnected (calculateEdgeStats ns es))"
    if "card (endpoints es) \<le> 10"
  proof -
    from that have "length ?ranked \<le> 2 * 5" by (simp add: nodeConnections_length)
    with ranked have "?entry \<in> set (take 5 ?ranked)
        \<or> ?entry \<in> set (drop (length ?ranked - 5) ?ranked)"
      by (rule take_drop_cover)
    then show ?thesis by (auto simp: ranked_slices)
  qed
  from assms(1) have "es \<noteq> []" by auto
  then have average: "averageConnections (calculateEdgeStats ns es) =
      Num (of_int \<lfloor>real (2 * length es) / real (card (endpoints es)) * 10 + 1 / 2\<rfloor> / 10)"
    by (rule averageConnections_nonempty)
  from no_type_error returns parts on_stack no_key none visit roots of_source of_target
    positive ranked both one endpoint average
  show ?thesis by (intro conjI) blast+
qed

theorem dangling_edge_counted_witness:
  "ex_AX \<in> set [ex_AB, ex_AX] \<and> ''X'' = target ex_AX \<and> ''X'' \<notin> set (Object_keys ex_nodes)
   \<and> card (endpoints [ex_AB, ex_AX]) = 3
   \<and> card (endpoints [ex_AB, ex_AX]) < maxCallDepth ex_limits
   \<and> length (years_of (Object_values ex_nodes)) \<le> maxArguments ex_limits
   \<and> (\<exists>r. calculateGraphStats ex_limits ex_nodes [ex_AB, ex_AX] = Inr r
         \<and> \<lparr>nodeId = ''X'', label = ''X'', connections = 1\<rparr> \<in> set (mostConnected (edges r))
         \<and> \<lparr>nodeId = ''X'', label = ''X'', connections = 1\<rparr> \<in> set (leastConnected (edges r))
         \<and> averageConnections (edges r) = Num (13 / 10))
   \<and> dfs_on_stack 1 (buildAdjacency ex_nodes [ex_AB, ex_AX]) {''A''} ''X'' = Inr {''X'', ''A''}
   \<and> ''X'' \<notin> fst ` set (buildAdjacency ex_nodes [ex_AB, ex_AX])
   \<and> dfs (buildAdjacency ex_nodes [ex_AB, ex_AX]) {''A''} ''X'' = {''X'', ''A''}
   \<and> launches (buildAdjacency ex_nodes [ex_AB, ex_AX]) {} (Object_keys ex_nodes)
       = [[''A'', ''B'', ''X''], [''C'']]
   \<and> source ex_AX \<in> set (Object_keys ex_nodes)
   \<and> neighbors_of (buildAdjacency ex_nodes [ex_AB, ex_AX]) ''A'' = [''B'', ''X'']
   \<and> nodeConnections ex_nodes [ex_AB, ex_AX] =
       [\<lparr>nodeId = ''A'', label = ''Dune'', connections = 2\<rparr>,
        \<lparr>nodeId = ''B'', label = ''Frank Herbert'', connections = 1\<rparr>,
        \<lparr>nodeId = ''X'', label = ''X'', connections = 1\<rparr>]"
proof -
  let ?es = "[ex_AB, ex_AX]"
  let ?entry = "\<lparr>nodeId = ''X'', label = ''X'', connections = 1\<rparr>"
  have edge: "ex_AX \<in> set ?es" by simp
  have endpoint: "''X'' = source ex_AX \<or> ''X'' = target ex_AX" by (simp add: ex_edge_defs)
  have missing: "''X'' \<notin> set (Object_keys ex_nodes)" by (simp add: Object_keys_def ex_nodes_def)
  have three: "card (endpoints ?es) = 3" by (simp add: endpoints_def ex_edge_defs)
  have small: "card (endpoints ?es) < maxCallDepth ex_limits
      \<and> length (years_of (Object_values ex_nodes)) \<le> maxArguments ex_limits"
    by (simp add: three ex_limits_def years_of_def Object_values_def ex_node_defs)
  have ends: "length (filter (\<lambda>edge. source edge = ''X'') ?es)
      + length (filter (\<lambda>edge. target edge = ''X'') ?es) = 1"
    by (simp add: ex_edge_defs)
  have source_key: "source ex_AX \<in> set (Object_keys ex_nodes)"
    by (simp add: Object_keys_def ex_nodes_def ex_edge_defs)
  have average: "Num (of_int \<lfloor>real (2 * length ?es) / real (card (endpoints ?es)) * 10 + 1 / 2\<rfloor> / 10)
      = Num (13 / 10)"
    by (simp add: three)
  have ranking: "nodeConnections ex_nodes ?es =
       [\<lparr>nodeId = ''A'', label = ''Dune'', connections = 2\<rparr>,
        \<lparr>nodeId = ''B'', label = ''Frank Herbert'', connections = 1\<rparr>,
        \<lparr>nodeId = ''X'', label = ''X'', connections = 1\<rparr>]"
    by (simp add: nodeConnections_def connectionCount_def increment_def label_or_id_def
        sort_desc_def ex_node_defs ex_edge_defs)
  have neighbors: "neighbors_of (buildAdjacency ex_nodes ?es) ''A'' = [''B'', ''X'']"
    by (simp add: connectivity_eval ex_nodes_def ex_edge_defs)
  have tgt: "''X'' = target ex_AX" by (simp add: ex_edge_defs)
  have launched: "launches (buildAdjacency ex_nodes ?es) {} (Object_keys ex_nodes)
      = [[''A'', ''B'', ''X''], [''C'']]"
    by (simp add: connectivity_eval ex_nodes_def ex_edge_defs)
  from dangling_edge_counted [OF edge endpoint missing, where limits = ex_limits and r = ex_stats]
    small
  obtain r where run: "calculateGraphStats ex_limits ex_nodes ?es = Inr r" by blast
  note fact = dangling_edge_counted [OF edge endpoint missing, where limits = ex_limits
      and r = r and f = 1 and vis = "{''A''}", unfolded ends average]
  from fact run have stats: "edges r = calculateEdgeStats ex_nodes ?es" by blast
  from fact three have "?entry \<in> set (mostConnected (calculateEdgeStats ex_nodes ?es))
      \<inter> set (leastConnected (calculateEdgeStats ex_nodes ?es))"
    by simp
  moreover from fact have "averageConnections (calculateEdgeStats ex_nodes ?es) = Num (13 / 10)"
    by blast
  ultimately have engine: "\<exists>r. calculateGraphStats ex_limits ex_nodes ?es = Inr r
      \<and> ?entry \<in> set (mostConnected (edges r))
      \<and> ?entry \<in> set (leastConnected (edges r))
      \<and> averageConnections (edges r) = Num (13 / 10)"
    using run stats by auto
  from fact have "dfs_on_stack 1 (buildAdjacency ex_nodes ?es) {''A''} ''X'' = Inr {''X'', ''A''}"
    and "''X'' \<notin> fst ` set (buildAdjacency ex_nodes ?es)"
    and "dfs (buildAdjacency ex_nodes ?es) {''A''} ''X'' = {''X'', ''A''}"
    by simp_all
  with edge tgt missing three small engine source_key neighbors ranking launched
  show ?thesis by blast
qed

text \<open>
  C3 as stated fails: with the single edge \<open>A-X\<close>, where \<open>X\<close> is no node, the id
  \<open>X\<close> is in \<^verbatim>\<open>mostConnected\<close> and \<^verbatim>\<open>leastConnected\<close> and in the average of the
  connections, and it is in the neighbor set of \<open>A\<close>, which changes
  \<^verbatim>\<open>averageDegree\<close> and \<^verbatim>\<open>isolatedNodes\<close>.
\<close>

theorem dangling_edge_in_counts:
  "''X'' \<notin> set (Object_keys ex_nodes)
   \<and> target ex_AX = ''X''
   \<and> \<lparr>nodeId = ''X'', label = ''X'', connections = 1\<rparr>
        \<in> set (mostConnected (calculateEdgeStats ex_nodes [ex_AX]))
   \<and> \<lparr>nodeId = ''X'', label = ''X'', connections = 1\<rparr>
        \<in> set (leastConnected (calculateEdgeStats ex_nodes [ex_AX]))
   \<and> averageConnections (calculateEdgeStats ex_nodes [ex_AX]) = Num 1
   \<and> averageConnections (calculateEdgeStats ex_nodes []) = Num 0
   \<and> ''X'' \<in> set (neighbors_of (buildAdjacency ex_nodes [ex_AX]) ''A'')
   \<and> averageDegree (calculateConnectivityStats ex_nodes [ex_AX]) = Num (3 / 10)
   \<and> averageDegree (calculateConnectivityStats ex_nodes []) = Num 0
   \<and> isolatedNodes (calculateConnectivityStats ex_nodes [ex_AX]) = 2
   \<and> isolatedNodes (calculateConnectivityStats ex_nodes []) = 3"
  by (simp add: connectivity_eval calculateEdgeStats_def nodeConnections_def connectionCount_def
      increment_def label_or_id_def sort_desc_def ex_node_defs ex_edge_defs)

section \<open>Properties of the content statistics\<close>

lemma fold_update_map_of:
  "map_of (foldl (\<lambda>m a. AList.update (g a) (f (g a)) m) m0 as) k =
     (if k \<in> g ` set as then Some (f k) else map_of m0 k)"
proof (induction as arbitrary: m0)
  case Nil
  show ?case by simp
next
  case (Cons a as)
  show ?case
    unfolding foldl_Cons Cons.IH by (auto simp: update_conv')
qed

lemma fold_update_distinct:
  "distinct (map fst m0) \<Longrightarrow>
     distinct (map fst (foldl (\<lambda>m a. AList.update (g a) (f (g a)) m) m0 as))"
  by (induction as arbitrary: m0) (simp_all add: distinct_update)

lemma fold_update_entries:
  assumes "entry \<in> set (foldl (\<lambda>m a. AList.update (g a) (f (g a)) m) [] as)"
  shows "fst entry \<in> g ` set as \<and> snd entry = f (fst entry)"
proof -
  let ?m = "foldl (\<lambda>m a. AList.update (g a) (f (g a)) m) [] as"
  have "distinct (map fst ?m)" by (rule fold_update_distinct) simp
  with assms have "map_of ?m (fst entry) = Some (snd entry)" by simp
  then show ?thesis
    unfolding fold_update_map_of by (auto split: if_splits)
qed

lemma themeConnections_fold:
  "themeConnections ns es =
     foldl (\<lambda>m a. AList.update (Node.label a) (theme_count es (Node.label a)) m) []
       (filter (\<lambda>n. Node.type n = ''theme'') ns)"
  by (simp add: themeConnections_def theme_count_def)

lemma authorBooks_fold:
  "authorBooks ns es =
     foldl (\<lambda>m a. AList.update (Node.label a) (author_count ns es (Node.label a)) m) []
       (filter (\<lambda>n. Node.type n = ''author'') ns)"
  by (simp add: authorBooks_def author_count_def)

lemma themeConnections_map_of:
  "map_of (themeConnections ns es) l =
     (if l \<in> Node.label ` {n \<in> set ns. Node.type n = ''theme''} then Some (theme_count es l) else None)"
  unfolding themeConnections_fold fold_update_map_of by simp

lemma authorBooks_map_of:
  "map_of (authorBooks ns es) l =
     (if l \<in> Node.label ` {n \<in> set ns. Node.type n = ''author''} then Some (author_count ns es l) else None)"
  unfolding authorBooks_fold fold_update_map_of by simp

lemma topThemes_entries:
  assumes "entry \<in> set (topThemes (calculateContentStats ns es))"
  shows "(\<exists>n\<in>set ns. Node.type n = ''theme'' \<and> Node.label n = fst entry)
       \<and> snd entry = theme_count es (fst entry)"
proof -
  from assms have "entry \<in> set (themeConnections ns es)"
    by (auto simp: calculateContentStats_def sort_desc_def dest: in_set_takeD)
  from fold_update_entries [OF this [unfolded themeConnections_fold]]
  show ?thesis by auto
qed

lemma topAuthors_entries:
  assumes "entry \<in> set (topAuthors (calculateContentStats ns es))"
  shows "(\<exists>n\<in>set ns. Node.type n = ''author'' \<and> Node.label n = fst entry)
       \<and> snd entry = author_count ns es (fst entry)"
proof -
  from assms have "entry \<in> set (authorBooks ns es)"
    by (auto simp: calculateContentStats_def sort_desc_def dest: in_set_takeD)
  from fold_update_entries [OF this [unfolded authorBooks_fold]]
  show ?thesis by auto
qed

lemma counts_ignore_other_edges:
  assumes "source e \<noteq> l" and "target e \<noteq> l"
  shows "theme_count (es1 @ e # es2) l = theme_count (es1 @ es2) l"
    and "author_count ns (es1 @ e # es2) l = author_count ns (es1 @ es2) l"
  using assms by (simp_all add: theme_count_def author_count_def)

lemma is_book_label_find:
  "is_book_label ns endpoint \<longleftrightarrow>
     (\<exists>b. List.find (\<lambda>n. Node.label n = endpoint) ns = Some b \<and> Node.type b = ''book'')"
  by (simp add: is_book_label_def split: option.splits)

lemma content_counts:
  "(\<forall>entry\<in>set (topThemes (calculateContentStats ns es)).
      (\<exists>n\<in>set ns. Node.type n = ''theme'' \<and> Node.label n = fst entry)
      \<and> snd entry = length (filter (\<lambda>e. source e = fst entry \<or> target e = fst entry) es))
   \<and> (\<forall>entry\<in>set (topAuthors (calculateContentStats ns es)).
      (\<exists>n\<in>set ns. Node.type n = ''author'' \<and> Node.label n = fst entry)
      \<and> snd entry = length (filter (\<lambda>e. (source e = fst entry \<or> target e = fst entry)
                                         \<and> (is_book_label ns (source e)
                                              \<or> is_book_label ns (target e))) es))
   \<and> (n \<in> set ns \<and> Node.type n = ''theme'' \<longrightarrow>
        map_of (themeConnections ns es) (Node.label n)
          = Some (length (filter (\<lambda>e. source e = Node.label n \<or> target e = Node.label n) es)))
   \<and> (n \<in> set ns \<and> Node.type n = ''author'' \<longrightarrow>
        map_of (authorBooks ns es) (Node.label n)
          = Some (length (filter (\<lambda>e. (source e = Node.label n \<or> target e = Node.label n)
                                       \<and> (is_book_label ns (source e)
                                            \<or> is_book_label ns (target e))) es)))
   \<and> (source e \<noteq> l \<and> target e \<noteq> l \<longrightarrow>
        map_of (themeConnections ns (es1 @ e # es2)) l = map_of (themeConnections ns (es1 @ es2)) l
        \<and> map_of (authorBooks ns (es1 @ e # es2)) l = map_of (authorBooks ns (es1 @ es2)) l)"
proof (intro conjI impI ballI)
  fix entry assume "entry \<in> set (topThemes (calculateContentStats ns es))"
  from topThemes_entries [OF this]
  show "\<exists>n\<in>set ns. Node.type n = ''theme'' \<and> Node.label n = fst entry"
    and "snd entry = length (filter (\<lambda>e. source e = fst entry \<or> target e = fst entry) es)"
    by (simp_all add: theme_count_def)
next
  fix entry assume "entry \<in> set (topAuthors (calculateContentStats ns es))"
  from topAuthors_entries [OF this]
  show "\<exists>n\<in>set ns. Node.type n = ''author'' \<and> Node.label n = fst entry"
    and "snd entry = length (filter (\<lambda>e. (source e = fst entry \<or> target e = fst entry)
            \<and> (is_book_label ns (source e) \<or> is_book_label ns (target e))) es)"
    by (simp_all add: author_count_def)
next
  assume "n \<in> set ns \<and> Node.type n = ''theme''"
  then show "map_of (themeConnections ns es) (Node.label n)
      = Some (length (filter (\<lambda>e. source e = Node.label n \<or> target e = Node.label n) es))"
    unfolding themeConnections_map_of by (auto simp: theme_count_def)
next
  assume "n \<in> set ns \<and> Node.type n = ''author''"
  then show "map_of (authorBooks ns es) (Node.label n)
      = Some (length (filter (\<lambda>e. (source e = Node.label n \<or> target e = Node.label n)
            \<and> (is_book_label ns (source e) \<or> is_book_label ns (target e))) es))"
    unfolding authorBooks_map_of by (auto simp: author_count_def)
next
  assume other: "source e \<noteq> l \<and> target e \<noteq> l"
  then show "map_of (themeConnections ns (es1 @ e # es2)) l = map_of (themeConnections ns (es1 @ es2)) l"
    unfolding themeConnections_map_of by (simp add: counts_ignore_other_edges)
  from other show "map_of (authorBooks ns (es1 @ e # es2)) l = map_of (authorBooks ns (es1 @ es2)) l"
    unfolding authorBooks_map_of by (simp add: counts_ignore_other_edges)
qed


text \<open>
  C10. The content statistics match the endpoints of the edges against node labels,
  not node ids:
  \<^item> every entry of \<^verbatim>\<open>topThemes\<close> is the label of a theme node together with the
    number of edges whose source or target is that label, and every theme node has this
    count in \<^verbatim>\<open>themeConnections\<close> (of which \<^verbatim>\<open>topThemes\<close> keeps the ten largest);
  \<^item> likewise every entry of \<^verbatim>\<open>topAuthors\<close> is the label of an author node with the
    number of edges that have the label as an endpoint and of which the source or the
    target is a book's label: the first node that has the endpoint as its label is
    of type \<open>book\<close>;
  \<^item> an edge neither of whose endpoints is the label (one that names the node by an id
    different from its label, say) changes neither count of that label.
\<close>

theorem content_stats_match_labels:
  "(\<forall>entry\<in>set (topThemes (calculateContentStats ns es)).
      (\<exists>n\<in>set ns. Node.type n = ''theme'' \<and> Node.label n = fst entry)
      \<and> snd entry = length (filter (\<lambda>e. source e = fst entry \<or> target e = fst entry) es))
   \<and> (\<forall>entry\<in>set (topAuthors (calculateContentStats ns es)).
      (\<exists>n\<in>set ns. Node.type n = ''author'' \<and> Node.label n = fst entry)
      \<and> snd entry = length (filter (\<lambda>e. (source e = fst entry \<or> target e = fst entry)
            \<and> ((\<exists>b. List.find (\<lambda>n. Node.label n = source e) ns = Some b
                      \<and> Node.type b = ''book'')
               \<or> (\<exists>b. List.find (\<lambda>n. Node.label n = target e) ns = Some b
                      \<and> Node.type b = ''book''))) es))
   \<and> (n \<in> set ns \<and> Node.type n = ''theme'' \<longrightarrow>
        map_of (themeConnections ns es) (Node.label n)
          = Some (length (filter (\<lambda>e. source e = Node.label n \<or> target e = Node.label n) es)))
   \<and> (n \<in> set ns \<and> Node.type n = ''author'' \<longrightarrow>
        map_of (authorBooks ns es) (Node.label n)
          = Some (length (filter (\<lambda>e. (source e = Node.label n \<or> target e = Node.label n)
            \<and> ((\<exists>b. List.find (\<lambda>n. Node.label n = source e) ns = Some b
                      \<and> Node.type b = ''book'')
               \<or> (\<exists>b. List.find (\<lambda>n. Node.label n = target e) ns = Some b
                      \<and> Node.type b = ''book''))) es)))
   \<and> (source e \<noteq> l \<and> target e \<noteq> l \<longrightarrow>
        map_of (themeConnections ns (es1 @ e # es2)) l = map_of (themeConnections ns (es1 @ es2)) l
        \<and> map_of (authorBooks ns (es1 @ e # es2)) l = map_of (authorBooks ns (es1 @ es2)) l)"
  using content_counts [of ns es n e l es1 es2] unfolding is_book_label_find .

lemmas content_eval = calculateContentStats_def themeConnections_def authorBooks_def
  is_book_label_def seriesMap_def sort_desc_def Object_values_def

theorem content_stats_match_labels_witness:
  "ex_C \<in> set (Object_values ex_nodes) \<and> Node.type ex_C = ''theme''
   \<and> ex_B \<in> set (Object_values ex_nodes) \<and> Node.type ex_B = ''author''
   \<and> source ex_AC \<noteq> Node.label ex_C \<and> target ex_AC \<noteq> Node.label ex_C
   \<and> target ex_AC = Node.id ex_C
   \<and> topThemes (calculateContentStats (Object_values ex_nodes) [ex_AB, ex_AC, ex_wrote, ex_about])
     = [(''Ecology'', 1)]
   \<and> topAuthors (calculateContentStats (Object_values ex_nodes) [ex_AB, ex_AC, ex_wrote, ex_about])
     = [(''Frank Herbert'', 1)]
   \<and> map_of (themeConnections (Object_values ex_nodes) [ex_AB, ex_AC, ex_wrote, ex_about]) ''Ecology''
     = Some 1
   \<and> map_of (themeConnections (Object_values ex_nodes) [ex_AB, ex_wrote, ex_about]) ''Ecology''
     = Some 1
   \<and> List.find (\<lambda>n. Node.label n = target ex_wrote) (Object_values ex_nodes) = Some ex_A
   \<and> Node.type ex_A = ''book''
   \<and> map_of (authorBooks (Object_values ex_nodes) [ex_AB, ex_AC, ex_wrote, ex_about])
         ''Frank Herbert'' = Some 1
   \<and> map_of (authorBooks (Object_values ex_nodes)
                 [\<lparr>Edge.id = ''e7'', source = ''Frank Herbert'', target = ''Ecology''\<rparr>])
         ''Frank Herbert'' = Some 0"
proof -
  let ?ns = "Object_values ex_nodes"
  let ?es = "[ex_AB, ex_AC, ex_wrote, ex_about]"
  have node: "ex_C \<in> set ?ns \<and> Node.type ex_C = ''theme''"
    by (simp add: Object_values_def ex_node_defs)
  have writer: "ex_B \<in> set ?ns \<and> Node.type ex_B = ''author''"
    by (simp add: Object_values_def ex_node_defs)
  have other: "source ex_AC \<noteq> Node.label ex_C \<and> target ex_AC \<noteq> Node.label ex_C"
    by (simp add: ex_node_defs ex_edge_defs)
  note fact = content_stats_match_labels
    [of ?ns ?es ex_C ex_AC "Node.label ex_C" "[ex_AB]" "[ex_wrote, ex_about]"]
  from fact node other
  have "map_of (themeConnections ?ns ([ex_AB] @ ex_AC # [ex_wrote, ex_about])) (Node.label ex_C)
      = map_of (themeConnections ?ns ([ex_AB] @ [ex_wrote, ex_about])) (Node.label ex_C)"
    by blast
  moreover have "map_of (themeConnections ?ns [ex_AB, ex_wrote, ex_about]) ''Ecology'' = Some 1"
    by (simp add: content_eval ex_node_defs ex_edge_defs)
  ultimately have "map_of (themeConnections ?ns ?es) ''Ecology'' = Some 1"
    by (simp add: ex_C_def)
  moreover have "topThemes (calculateContentStats ?ns ?es) = [(''Ecology'', 1)]"
    by (simp add: content_eval ex_node_defs ex_edge_defs)
  moreover have "topAuthors (calculateContentStats ?ns ?es) = [(''Frank Herbert'', 1)]"
    by (simp add: content_eval ex_node_defs ex_edge_defs)
  moreover have "map_of (themeConnections ?ns [ex_AB, ex_wrote, ex_about]) ''Ecology'' = Some 1"
    by (simp add: content_eval ex_node_defs ex_edge_defs)
  moreover have "target ex_AC = Node.id ex_C"
    by (simp add: ex_node_defs ex_edge_defs)
  moreover have "List.find (\<lambda>n. Node.label n = target ex_wrote) ?ns = Some ex_A"
    and "Node.type ex_A = ''book''"
    by (simp_all add: Object_values_def ex_node_defs ex_edge_defs)
  moreover have "map_of (authorBooks ?ns ?es) ''Frank Herbert'' = Some 1"
  proof -
    from content_stats_match_labels
      [of ?ns ?es ex_B ex_AC "Node.label ex_C" "[ex_AB]" "[ex_wrote, ex_about]"] writer
    have "map_of (authorBooks ?ns ?es) (Node.label ex_B)
      = Some (length (filter (\<lambda>e. (source e = Node.label ex_B \<or> target e = Node.label ex_B)
            \<and> ((\<exists>b. List.find (\<lambda>n. Node.label n = source e) ?ns = Some b
                      \<and> Node.type b = ''book'')
               \<or> (\<exists>b. List.find (\<lambda>n. Node.label n = target e) ?ns = Some b
                      \<and> Node.type b = ''book''))) ?es))"
      by blast
    then show ?thesis
      by (simp add: Object_values_def ex_node_defs ex_edge_defs)
  qed
  moreover have "map_of (authorBooks ?ns
        [\<lparr>Edge.id = ''e7'', source = ''Frank Herbert'', target = ''Ecology''\<rparr>])
      ''Frank Herbert'' = Some 0"
    by (simp add: content_eval ex_node_defs)
  ultimately show ?thesis using node writer other by blast
qed

lemma rounded_finite:
  assumes "v = Num q" and "0 \<le> q" and "0 < c"
  shows "\<exists>a. js_div (Math_round (js_mul v (Num c))) (Num c) = Num a \<and> 0 \<le> a"
proof -
  have "0 \<le> q * c + 1 / 2" using assms by simp
  then have "0 \<le> \<lfloor>q * c + 1 / 2\<rfloor>" by simp
  then have "0 \<le> real_of_int \<lfloor>q * c + 1 / 2\<rfloor> / c" using assms by simp
  with assms show ?thesis by simp
qed

lemma guarded_ratio:
  "\<exists>q. (if 0 < d then js_div (Num n) (Num d) else Num 0) = Num q \<and> (0 \<le> n \<longrightarrow> 0 \<le> q)"
  by simp

lemma averageConnections_finite:
  "\<exists>a. averageConnections (calculateEdgeStats ns es) = Num a \<and> 0 \<le> a"
proof -
  let ?counts = "connectionCount es"
  obtain q where q: "(if 0 < real (length ?counts)
      then js_div (Num (real (sum_list (map snd ?counts)))) (Num (real (length ?counts)))
      else Num 0) = Num q" "0 \<le> q"
    using guarded_ratio [of "real (length ?counts)" "real (sum_list (map snd ?counts))"] by auto
  from rounded_finite [OF q(1) q(2), of 10] show ?thesis
    by (simp add: calculateEdgeStats_def Let_def)
qed

lemma averageDegree_finite:
  "\<exists>a. averageDegree (calculateConnectivityStats ns es) = Num a \<and> 0 \<le> a"
proof -
  let ?adj = "buildAdjacency ns es"
  let ?deg = "real (sum_list (map (\<lambda>(k, neighbors). length neighbors) ?adj))"
  obtain q where q: "(if 0 < real (length (Object_keys ns))
      then js_div (Num ?deg) (Num (real (length (Object_keys ns)))) else Num 0) = Num q" "0 \<le> q"
    using guarded_ratio [of "real (length (Object_keys ns))" ?deg] by auto
  from rounded_finite [OF q(1) q(2), of 10] show ?thesis
    by (simp add: calculateConnectivityStats_def Let_def)
qed

lemma density_finite:
  "\<exists>a. density (calculateConnectivityStats ns es) = Num a \<and> 0 \<le> a"
proof -
  let ?n = "real (length (Object_keys ns))"
  obtain q where q: "(if 0 < ?n * (?n - 1) / 2
      then js_div (Num (real (length es))) (Num (?n * (?n - 1) / 2)) else Num 0) = Num q" "0 \<le> q"
    using guarded_ratio [of "?n * (?n - 1) / 2" "real (length es)"] by auto
  from rounded_finite [OF q(1) q(2), of 1000] show ?thesis
    by (simp add: calculateConnectivityStats_def Let_def)
qed

lemma zero_guards:
  "averageConnections (calculateEdgeStats ns []) = Num 0"
  "averageDegree (calculateConnectivityStats [] es) = Num 0"
  "density (calculateConnectivityStats [] es) = Num 0"
  "density (calculateConnectivityStats [(k, n)] es) = Num 0"
  by (simp_all add: calculateEdgeStats_def calculateConnectivityStats_def connectionCount_def
      Object_keys_def Let_def)

lemma density_small: "length ns \<le> 1 \<Longrightarrow> density (calculateConnectivityStats ns es) = Num 0"
proof (cases ns)
  case Nil
  then show ?thesis by (simp add: zero_guards)
next
  case (Cons entry rest)
  moreover assume "length ns \<le> 1"
  ultimately have "ns = [(fst entry, snd entry)]" by simp
  then show ?thesis by (simp only: zero_guards)
qed

lemma empty_stats:
  "calculateGraphStats limits [] [] =
     Inr \<lparr>nodes = \<lparr>NodeStats.total = 0, byType = \<lparr>book = 0, author = 0, theme = 0\<rparr>,
                    withImages = 0, withDescriptions = 0, withSeries = 0\<rparr>,
          edges = \<lparr>EdgeStats.total = 0, averageConnections = Num 0, mostConnected = [],
                    leastConnected = []\<rparr>,
          connectivity = \<lparr>averageDegree = Num 0, density = Num 0, clusters = 0,
                           isolatedNodes = 0\<rparr>,
          content = \<lparr>totalSeries = 0, seriesDistribution = [], topThemes = [],
                      topAuthors = []\<rparr>,
          temporal = \<lparr>earliestYear = None, latestYear = None, yearRange = 0,
                       booksPerDecade = []\<rparr>\<rparr>"
  by (simp add: calculateGraphStats_def calculateNodeStats_def calculateEdgeStats_def
      calculateConnectivityStats_on_stack_def calculateConnectivityStats_def
      calculateContentStats_def calculateTemporalStats_def
      Object_values_def Object_keys_def connectionCount_def nodeConnections_def sort_desc_def
      buildAdjacency_def seriesMap_def themeConnections_def authorBooks_def
      years_of_def Let_def)

text \<open>
  C1, as the code has it. \<^verbatim>\<open>calculateGraphStats\<close> returns a statistics record
  whenever the number of distinct edge endpoints is below the depth to which calls of
  \<open>dfs\<close> can nest on the engine's stack and the number of years is within the number
  of arguments a call can take; for the empty graph it returns the all-zero record
  under any limits. Whenever it returns, the three ratios are finite, non-negative
  numbers, never NaN or an infinity: each division is reached only with a positive
  denominator, and the guard yields \<open>0\<close> otherwise (no edge; no node; at most one
  node). It never raises a TypeError.
\<close>

theorem calculateGraphStats_within_limits:
  "(card (endpoints es) < maxCallDepth limits
      \<and> length (years_of (Object_values ns)) \<le> maxArguments limits
      \<longrightarrow> (\<exists>r. calculateGraphStats limits ns es = Inr r))
   \<and> (calculateGraphStats limits ns es = Inr stats \<longrightarrow>
        (\<exists>a. averageConnections (edges stats) = Num a \<and> 0 \<le> a)
        \<and> (\<exists>a. averageDegree (connectivity stats) = Num a \<and> 0 \<le> a)
        \<and> (\<exists>a. density (connectivity stats) = Num a \<and> 0 \<le> a)
        \<and> (es = [] \<longrightarrow> averageConnections (edges stats) = Num 0)
        \<and> (ns = [] \<longrightarrow> averageDegree (connectivity stats) = Num 0)
        \<and> (length ns \<le> 1 \<longrightarrow> density (connectivity stats) = Num 0))
   \<and> calculateGraphStats limits ns es \<noteq> Inl TypeError
   \<and> calculateGraphStats limits [] [] =
       Inr \<lparr>nodes = \<lparr>NodeStats.total = 0, byType = \<lparr>book = 0, author = 0, theme = 0\<rparr>,
                      withImages = 0, withDescriptions = 0, withSeries = 0\<rparr>,
            edges = \<lparr>EdgeStats.total = 0, averageConnections = Num 0, mostConnected = [],
                      leastConnected = []\<rparr>,
            connectivity = \<lparr>averageDegree = Num 0, density = Num 0, clusters = 0,
                             isolatedNodes = 0\<rparr>,
            content = \<lparr>totalSeries = 0, seriesDistribution = [], topThemes = [],
                        topAuthors = []\<rparr>,
            temporal = \<lparr>earliestYear = None, latestYear = None, yearRange = 0,
                         booksPerDecade = []\<rparr>\<rparr>"
proof (intro conjI impI)
  assume "card (endpoints es) < maxCallDepth limits
    \<and> length (years_of (Object_values ns)) \<le> maxArguments limits"
  then show "\<exists>r. calculateGraphStats limits ns es = Inr r"
    using graphStats_returns by blast
next
  assume run: "calculateGraphStats limits ns es = Inr stats"
  note parts = graphStats_parts(2,3) [OF run]
  show "\<exists>a. averageConnections (edges stats) = Num a \<and> 0 \<le> a"
    unfolding parts by (rule averageConnections_finite)
  show "\<exists>a. averageDegree (connectivity stats) = Num a \<and> 0 \<le> a"
    unfolding parts by (rule averageDegree_finite)
  show "\<exists>a. density (connectivity stats) = Num a \<and> 0 \<le> a"
    unfolding parts by (rule density_finite)
  show "averageConnections (edges stats) = Num 0" if "es = []"
    unfolding parts using that by (simp add: zero_guards)
  show "averageDegree (connectivity stats) = Num 0" if "ns = []"
    unfolding parts using that by (simp add: zero_guards)
  show "density (connectivity stats) = Num 0" if "length ns \<le> 1"
    unfolding parts using that by (rule density_small)
next
  show "calculateGraphStats limits ns es \<noteq> Inl TypeError" by (rule graphStats_error)
next
  show "calculateGraphStats limits [] [] =
       Inr \<lparr>nodes = \<lparr>NodeStats.total = 0, byType = \<lparr>book = 0, author = 0, theme = 0\<rparr>,
                      withImages = 0, withDescriptions = 0, withSeries = 0\<rparr>,
            edges = \<lparr>EdgeStats.total = 0, averageConnections = Num 0, mostConnected = [],
                      leastConnected = []\<rparr>,
            connectivity = \<lparr>averageDegree = Num 0, density = Num 0, clusters = 0,
                             isolatedNodes = 0\<rparr>,
            content = \<lparr>totalSeries = 0, seriesDistribution = [], topThemes = [],
                        topAuthors = []\<rparr>,
            temporal = \<lparr>earliestYear = None, latestYear = None, yearRange = 0,
                         booksPerDecade = []\<rparr>\<rparr>"
    by (rule empty_stats)
qed

lemma show_nat_1960: "show_nat 1960 = ''1960''"
  by code_simp

lemma ex_stats_run: "calculateGraphStats ex_limits ex_nodes [ex_AB, ex_AC] = Inr ex_stats"
  by (simp add: calculateGraphStats_def calculateConnectivityStats_on_stack_def
      calculateConnectivityStats_def calculateTemporalStats_def years_of_def decadeMap_def
      increment_def show_int_def show_nat_1960 parseInt_def parse_nat_prefix_def
      read_digits_def is_digit_def digit_value_def truthy_num_def countClusters_def launch_def
      buildAdjacency_def add_edge_def add_neighbor_def neighbors_of_def Set_add_def
      Object_keys_def Object_values_def ex_stats_def ex_limits_def ex_node_defs ex_edge_defs
      Let_def)

theorem calculateGraphStats_within_limits_witness:
  "card (endpoints [ex_AB, ex_AC]) < maxCallDepth ex_limits
   \<and> length (years_of (Object_values ex_nodes)) \<le> maxArguments ex_limits
   \<and> calculateGraphStats ex_limits ex_nodes [ex_AB, ex_AC] = Inr ex_stats
   \<and> averageConnections (edges ex_stats) = Num (13 / 10)
   \<and> averageDegree (connectivity ex_stats) = Num (13 / 10)
   \<and> density (connectivity ex_stats) = Num (667 / 1000)
   \<and> (\<exists>r. calculateGraphStats ex_limits [] [] = Inr r
         \<and> averageConnections (edges r) = Num 0
         \<and> averageDegree (connectivity r) = Num 0
         \<and> density (connectivity r) = Num 0)"
proof -
  let ?es = "[ex_AB, ex_AC]"
  have small: "card (endpoints ?es) < maxCallDepth ex_limits
      \<and> length (years_of (Object_values ex_nodes)) \<le> maxArguments ex_limits"
    by (simp add: endpoints_def ex_limits_def years_of_def Object_values_def ex_node_defs
        ex_edge_defs)
  note fact = calculateGraphStats_within_limits [of ?es ex_limits ex_nodes ex_stats]
  from fact small obtain r where r: "calculateGraphStats ex_limits ex_nodes ?es = Inr r"
    by blast
  with ex_stats_run have run: "calculateGraphStats ex_limits ex_nodes ?es = Inr ex_stats"
    by simp
  with fact obtain a b c where finite: "averageConnections (edges ex_stats) = Num a"
    "averageDegree (connectivity ex_stats) = Num b" "density (connectivity ex_stats) = Num c"
    by blast
  have "averageConnections (edges ex_stats) = Num (13 / 10)"
    by (simp add: ex_stats_def calculateEdgeStats_def connectionCount_def increment_def
        ex_edge_defs Let_def)
  moreover have "averageDegree (connectivity ex_stats) = Num (13 / 10)"
    and "density (connectivity ex_stats) = Num (667 / 1000)"
    by (simp_all add: ex_stats_def calculateConnectivityStats_def buildAdjacency_def add_edge_def
        add_neighbor_def Set_add_def Object_keys_def ex_nodes_def ex_edge_defs Let_def)
  moreover have "\<exists>r. calculateGraphStats ex_limits [] [] = Inr r
      \<and> averageConnections (edges r) = Num 0
      \<and> averageDegree (connectivity r) = Num 0
      \<and> density (connectivity r) = Num 0"
  proof -
    from calculateGraphStats_within_limits [of "[]" ex_limits "[]" ex_stats]
    obtain r0 where r0: "calculateGraphStats ex_limits [] [] = Inr r0" by blast
    have "length ([] :: NodeRecord) \<le> 1" by simp
    with calculateGraphStats_within_limits [of "[]" ex_limits "[]" r0] r0
    have "averageConnections (edges r0) = Num 0 \<and> averageDegree (connectivity r0) = Num 0
        \<and> density (connectivity r0) = Num 0"
      by blast
    with r0 show ?thesis by blast
  qed
  ultimately show ?thesis using small run by blast
qed

text \<open>
  C1 as stated fails: on engines with limits of the order of \<open>ex_limits\<close>, the
  statistics of a path of 10001 nodes raise a RangeError in the recursive \<open>dfs\<close>,
  and those of 100001 dated nodes without edges raise one in
  \<^verbatim>\<open>Math.min(...years)\<close>.
\<close>

theorem calculateGraphStats_raises:
  "calculateGraphStats ex_limits (path_nodes 10001) (path_edges 10001) = Inl RangeError
   \<and> calculateGraphStats ex_limits (path_nodes 100001) [] = Inl RangeError"
  using deep_path_raises [of ex_limits] many_years_raise [of ex_limits]
  by (simp add: ex_limits_def)


section \<open>Properties of the CSV export\<close>

lemma split_lines_from_line:
  "newline \<notin> set l \<Longrightarrow>
     split_lines_from current (l @ newline # rest) = (current @ l) # split_lines_from [] rest"
  by (induction l arbitrary: current) auto

lemma split_lines_join:
  "newline \<notin> set l \<Longrightarrow>
     split_lines (join_lines (l # l' # ls)) = l # split_lines (join_lines (l' # ls))"
  by (simp add: split_lines_def split_lines_from_line)

lemma parse_rows_join:
  assumes "newline \<notin> set l"
  shows "parse_rows (join_lines (l # l' # ls)) =
       (case parse_row l of None \<Rightarrow> parse_rows (join_lines (l' # ls))
        | Some r \<Rightarrow> r # parse_rows (join_lines (l' # ls)))"
  unfolding parse_rows_def split_lines_join [OF assms] by simp

text \<open>
  C9. Reading the export back: for every statistics record and every rendering of the
  ratios, the number of the row \<open>Total Nodes\<close> is \<^verbatim>\<open>stats.nodes.total\<close> and the
  number of the row \<open>Total Edges\<close> is \<^verbatim>\<open>stats.edges.total\<close>. The two totals are
  counts (array lengths), rendered in decimal.
\<close>

theorem csv_round_trip:
  "lookup_number ''Total Nodes'' (exportStatsAsCSV numberToString stats)
     = Some (NodeStats.total (nodes stats))
   \<and> lookup_number ''Total Edges'' (exportStatsAsCSV numberToString stats)
     = Some (EdgeStats.total (edges stats))"
  by (simp add: lookup_number_def exportStatsAsCSV_def parse_rows_join
      show_nat_no_newline [unfolded newline_def] newline_def parse_row_def parse_number_show_nat
      del: join_lines.simps)

theorem csv_round_trip_witness:
  "calculateGraphStats ex_limits ex_nodes [ex_AB, ex_AC] = Inr ex_stats
   \<and> lookup_number ''Total Nodes''
     (exportStatsAsCSV (\<lambda>v. ''1.3'') ex_stats) = Some 3
   \<and> lookup_number ''Total Edges''
     (exportStatsAsCSV (\<lambda>v. ''1.3'') ex_stats) = Some 2"
proof -
  from csv_round_trip [of "\<lambda>v. ''1.3''" ex_stats]
  have "lookup_number ''Total Nodes'' (exportStatsAsCSV (\<lambda>v. ''1.3'') ex_stats) = Some 3
      \<and> lookup_number ''Total Edges'' (exportStatsAsCSV (\<lambda>v. ''1.3'') ex_stats) = Some 2"
    by (simp add: ex_stats_def calculateNodeStats_def calculateEdgeStats_def
        Object_values_def ex_nodes_def Let_def)
  with ex_stats_run show ?thesis by blast
qed
end
